theory Spec2Isabelle
  imports Complex_Main "HOL-Library.Word"
begin

section \<open>Errors, observations and collaborators\<close>

text \<open>
  The two engines of \<^verbatim>\<open>src/stochastic\<close> are templates over a candidate type
  \<^verbatim>\<open>T\<close>; the model is polymorphic in the candidate type \<^typ>\<open>'c\<close>.
  Every collaborator reaches one process-wide generator (\<^verbatim>\<open>RNG::getGenerator()\<close>)
  and may keep state of its own; all of it is the world \<^typ>\<open>'w\<close>, passed
  explicitly: an operation takes the world and returns its result with the new world.
  The two \<^verbatim>\<open>#pragma omp parallel for\<close> loops are modelled in index order.

  \<^verbatim>\<open>std::invalid_argument\<close> is the only exception the engines throw; reads that
  C++ leaves undefined (an index outside a vector, a remainder by zero) are errors
  of the model as well, so that no theorem rests on an unspecified value. An error
  comes with the world as it was when the error arose.
\<close>

datatype error =
    InvalidArgument string
  | OutOfRange
  | DivisionByZero

text \<open>What the engines write to \<^verbatim>\<open>std::cerr\<close>, without the elapsed time.\<close>

datatype 'f event =
    SolvedAtGeneration "64 word"
  | KilledEverything
  | Generation "64 word" 'f "64 word"
  | Best 'f

text \<open>
  \<^verbatim>\<open>Populator<T>\<close>: \<^verbatim>\<open>generate\<close>, \<^verbatim>\<open>mutate\<close>, \<^verbatim>\<open>crossover\<close> and
  \<^verbatim>\<open>survive\<close> are virtual, so they are fields of a record.
\<close>

record ('c, 'w) Populator =
  generate :: "'w \<Rightarrow> 'c \<times> 'w"
  mutate :: "'c \<Rightarrow> 'w \<Rightarrow> 'c \<times> 'w"
  crossover :: "'c \<Rightarrow> 'c \<Rightarrow> 'w \<Rightarrow> ('c \<times> 'c) \<times> 'w"
  survive :: "'c \<Rightarrow> 'w \<Rightarrow> 'c \<times> 'w"

text \<open>
  What the genetic engine takes from headers outside the sources at hand:
  \<^verbatim>\<open>T::fitness()\<close> (with \<^verbatim>\<open>Fitness = double\<close>, read as a real number),
  a draw of \<^verbatim>\<open>std::uniform_real_distribution<double>\<close> on the shared generator, and
  \<^verbatim>\<open>std::shuffle\<close> on it.
\<close>

record ('c, 'w) Env =
  fitness :: "'c \<Rightarrow> real"
  probabilityGenerator :: "'w \<Rightarrow> real \<times> 'w"
  shuffle :: "'c list \<Rightarrow> 'w \<Rightarrow> 'c list \<times> 'w"

section \<open>The genetic engine (GeneticAlgorithm.h)\<close>

text \<open>
  \<^verbatim>\<open>GeneticAlgorithm::Options\<close>. The populator is a \<^verbatim>\<open>unique_ptr\<close> that may be
  null; the selector (\<^verbatim>\<open>Selector<T>::select\<close>) returns an index into the population
  it is given. \<^verbatim>\<open>size_t\<close> and \<^verbatim>\<open>uint64_t\<close> are 64 bits wide; the population size
  is only compared, halved and doubled below itself, so it is a natural number.
\<close>

record ('c, 'w) Options =
  populator :: "('c, 'w) Populator option"
  population_size :: nat
  max_generations :: "64 word"
  crossover_probability :: real
  selector :: "'c list \<Rightarrow> 'w \<Rightarrow> nat \<times> 'w"
  mutation_probability :: real
  fitness_success_threshold :: real
  fitness_death_threshold :: real
  fitness_death_factor :: real
  permissible_dead_rounds :: "64 word"
  output_rounds :: "64 word"

text \<open>The variables of \<^verbatim>\<open>run\<close> that live across generations.\<close>

record ('c, 'w) ga_state =
  prevGeneration :: "'c list"
  best :: 'c
  deadRounds :: "64 word"
  world :: 'w
  cerr :: "real event list"

text \<open>
  Lines 97-104: the initial population. The vector is filled front to back, so it
  is the list of the candidates generated so far; \<^verbatim>\<open>max_init\<close> moves to \<open>i\<close>
  only on a strictly greater fitness.
\<close>

definition init_step ::
  "('c, 'w) Env \<Rightarrow> ('c, 'w) Populator \<Rightarrow> nat \<Rightarrow> 'c list \<times> nat \<times> 'w \<Rightarrow> 'c list \<times> nat \<times> 'w"
where
  "init_step env P i s =
     (case s of (prev, max_init, w) \<Rightarrow>
        (case generate P w of (c, w') \<Rightarrow>
           let prev' = prev @ [c] in
           (prev', (if fitness env (prev' ! i) > fitness env (prev' ! max_init) then i else max_init), w')))"

definition init_population ::
  "('c, 'w) Env \<Rightarrow> ('c, 'w) Populator \<Rightarrow> nat \<Rightarrow> 'w \<Rightarrow> 'c list \<times> nat \<times> 'w"
where
  "init_population env P n w = fold (init_step env P) [0..<n] ([], 0, w)"

text \<open>
  Lines 117-134: one pair-slot \<open>i\<close> of the next generation; the result is the pair
  stored at positions \<open>2 * i\<close> and \<open>2 * i + 1\<close>.
\<close>

definition maybe_mutate ::
  "('c, 'w) Env \<Rightarrow> ('c, 'w) Options \<Rightarrow> ('c, 'w) Populator \<Rightarrow> 'c \<Rightarrow> 'w \<Rightarrow> 'c \<times> 'w"
where
  "maybe_mutate env opts P c w =
     (case probabilityGenerator env w of (r, w') \<Rightarrow>
        if r < mutation_probability opts then mutate P c w' else (c, w'))"

definition breed_pair ::
  "('c, 'w) Env \<Rightarrow> ('c, 'w) Options \<Rightarrow> ('c, 'w) Populator \<Rightarrow> 'c list \<Rightarrow> nat \<Rightarrow> 'w
     \<Rightarrow> error \<times> 'w + ('c \<times> 'c) \<times> 'w"
where
  "breed_pair env opts P prev i w =
     (case probabilityGenerator env w of (r, w1) \<Rightarrow>
        if r < crossover_probability opts then
          (case selector opts prev w1 of (p0Idx, w2) \<Rightarrow>
           case selector opts prev w2 of (p1Idx, w3) \<Rightarrow>
             if p0Idx < length prev \<and> p1Idx < length prev then
               (case crossover P (prev ! p0Idx) (prev ! p1Idx) w3 of ((c0, c1), w4) \<Rightarrow>
                case maybe_mutate env opts P c0 w4 of (n0, w5) \<Rightarrow>
                case maybe_mutate env opts P c1 w5 of (n1, w6) \<Rightarrow>
                  Inr ((n0, n1), w6))
             else Inl (OutOfRange, w3))
        else if 2 * i + 1 < length prev then
          (case survive P (prev ! (2 * i)) w1 of (s0, w2) \<Rightarrow>
           case survive P (prev ! (2 * i + 1)) w2 of (s1, w3) \<Rightarrow>
             Inr ((s0, s1), w3))
        else Inl (OutOfRange, w1))"

fun breed ::
  "('c, 'w) Env \<Rightarrow> ('c, 'w) Options \<Rightarrow> ('c, 'w) Populator \<Rightarrow> 'c list \<Rightarrow> nat list \<Rightarrow> 'c list \<Rightarrow> 'w
     \<Rightarrow> error \<times> 'w + 'c list \<times> 'w"
where
  "breed env opts P prev [] nextGeneration w = Inr (nextGeneration, w)"
| "breed env opts P prev (i # slots) nextGeneration w =
     (case breed_pair env opts P prev i w of
        Inl e \<Rightarrow> Inl e
      | Inr ((a, b), w') \<Rightarrow> breed env opts P prev slots (nextGeneration @ [a, b]) w')"

text \<open>
  \<^verbatim>\<open>std::max_element(first, last, comp)\<close>: the position of the first element that no
  later one beats; on an empty range it is \<open>last\<close>, here index 0 of the empty list.
\<close>

definition max_element :: "('a \<Rightarrow> 'a \<Rightarrow> bool) \<Rightarrow> 'a list \<Rightarrow> nat" where
  "max_element cmp xs =
     fold (\<lambda>i largest. if cmp (xs ! largest) (xs ! i) then i else largest) [1..<length xs] 0"

text \<open>Lines 137-143: the fittest of the new generation against \<^verbatim>\<open>best\<close>.\<close>

definition update_best ::
  "('c, 'w) Env \<Rightarrow> ('c, 'w) Populator \<Rightarrow> 'c list \<Rightarrow> 'c \<Rightarrow> 'w \<Rightarrow> 'c \<times> bool \<times> 'w"
where
  "update_best env P nextGeneration b w =
     (let fittest = nextGeneration ! max_element (\<lambda>s1 s2. fitness env s1 < fitness env s2) nextGeneration
      in if fitness env fittest > fitness env b
         then (case survive P fittest w of (b', w') \<Rightarrow> (b', True, w'))
         else (b, False, w))"

text \<open>Lines 155-163: the kill threshold and the pass that replaces candidates.\<close>

definition kill_threshold :: "('c, 'w) Env \<Rightarrow> ('c, 'w) Options \<Rightarrow> 'c \<Rightarrow> real" where
  "kill_threshold env opts b =
     max (fitness_death_threshold opts) (fitness_death_factor opts * fitness env b)"

definition demise_step ::
  "('c, 'w) Env \<Rightarrow> ('c, 'w) Options \<Rightarrow> ('c, 'w) Populator \<Rightarrow> 64 word \<Rightarrow> real \<Rightarrow> nat
     \<Rightarrow> 'c list \<times> 'w \<Rightarrow> 'c list \<times> 'w"
where
  "demise_step env opts P dead threshold i s =
     (case s of (nextGeneration, w) \<Rightarrow>
        if dead \<ge> permissible_dead_rounds opts \<or> fitness env (nextGeneration ! i) \<le> threshold
        then (case generate P w of (c, w') \<Rightarrow> (nextGeneration[i := c], w'))
        else (nextGeneration, w))"

definition demise ::
  "('c, 'w) Env \<Rightarrow> ('c, 'w) Options \<Rightarrow> ('c, 'w) Populator \<Rightarrow> 64 word \<Rightarrow> real
     \<Rightarrow> 'c list \<Rightarrow> 'w \<Rightarrow> 'c list \<times> 'w"
where
  "demise env opts P dead threshold nextGeneration w =
     fold (demise_step env opts P dead threshold) [0..<population_size opts] (nextGeneration, w)"

text \<open>
  Lines 111-181: the body of the generation loop. It either returns from
  \<^verbatim>\<open>run\<close> (\<open>Returned\<close>, with the state whose \<^verbatim>\<open>best\<close> is returned) or hands
  the state to the next iteration (\<open>Continue\<close>).
\<close>

datatype ('r, 's) flow =
    Returned 'r
  | Continue 's

definition ga_generation ::
  "('c, 'w) Env \<Rightarrow> ('c, 'w) Options \<Rightarrow> ('c, 'w) Populator \<Rightarrow> 64 word \<Rightarrow> ('c, 'w) ga_state
     \<Rightarrow> error \<times> 'w + (('c, 'w) ga_state, ('c, 'w) ga_state) flow"
where
  "ga_generation env opts P generation st =
     (case breed env opts P (prevGeneration st) [0..<population_size opts div 2] [] (world st) of
        Inl e \<Rightarrow> Inl e
      | Inr (nextGeneration, w1) \<Rightarrow>
          if nextGeneration = [] then Inl (OutOfRange, w1)
          else
            (case update_best env P nextGeneration (best st) w1 of (best1, fitness_increased, w2) \<Rightarrow>
               if fitness env best1 \<ge> fitness_success_threshold opts
               then Inr (Returned (st\<lparr>best := best1, world := w2,
                                       cerr := cerr st @ [SolvedAtGeneration generation]\<rparr>))
               else
                 let dead1 = (if fitness_increased then 0 else deadRounds st + 1) in
                 (case demise env opts P dead1 (kill_threshold env opts best1) nextGeneration w2 of
                    (nextGeneration2, w3) \<Rightarrow>
                      let killed = (dead1 \<ge> permissible_dead_rounds opts);
                          dead2 = (if killed then 0 else dead1);
                          log1 = (if killed then cerr st @ [KilledEverything] else cerr st)
                      in if output_rounds opts = 0 then Inl (DivisionByZero, w3)
                         else
                           let log2 = (if generation mod output_rounds opts = 0
                                       then log1 @ [Generation generation (fitness env best1) dead2]
                                       else log1)
                           in (case shuffle env nextGeneration2 w3 of (prev', w4) \<Rightarrow>
                                 Inr (Continue \<lparr>prevGeneration = prev', best = best1,
                                                deadRounds = dead2, world = w4, cerr = log2\<rparr>)))))"

text \<open>
  Line 110: \<^verbatim>\<open>for (size_t generation = 0; generation < options.max_generations - 1;
  ++generation)\<close>. The bound is computed in \<^verbatim>\<open>uint64_t\<close>, so it wraps around when
  \<^verbatim>\<open>max_generations\<close> is 0. Lines 184-185: when the loop ends, \<^verbatim>\<open>best\<close> is returned.
\<close>

function ga_loop ::
  "('c, 'w) Env \<Rightarrow> ('c, 'w) Options \<Rightarrow> ('c, 'w) Populator \<Rightarrow> 64 word \<Rightarrow> ('c, 'w) ga_state
     \<Rightarrow> error \<times> 'w + 'c \<times> 'w \<times> real event list"
where
  "ga_loop env opts P generation st =
     (if generation < max_generations opts - 1 then
        (case ga_generation env opts P generation st of
           Inl e \<Rightarrow> Inl e
         | Inr (Returned st') \<Rightarrow> Inr (best st', world st', cerr st')
         | Inr (Continue st') \<Rightarrow> ga_loop env opts P (generation + 1) st')
      else Inr (best st, world st, cerr st))"
  by pat_completeness auto
termination
proof (relation "measure (\<lambda>(env, opts, P, generation, st). unat (max_generations opts - 1) - unat generation)")
  show "wf (measure (\<lambda>(env :: ('c, 'w) Env, opts :: ('c, 'w) Options, P :: ('c, 'w) Populator,
                       generation :: 64 word, st :: ('c, 'w) ga_state).
                       unat (max_generations opts - 1) - unat generation))"
    by simp
next
  fix env :: "('c, 'w) Env" and opts :: "('c, 'w) Options" and P :: "('c, 'w) Populator"
    and generation :: "64 word" and st :: "('c, 'w) ga_state"
  assume less: "generation < max_generations opts - 1"
  then have below: "unat generation < unat (max_generations opts - 1)"
    by (simp add: word_less_nat_alt)
  have "generation \<noteq> - 1"
    using less by (metis word_order.extremum_strict)
  then have "1 + generation \<noteq> 0"
    by (metis add_eq_0_iff)
  then have "unat (1 + generation) = Suc (unat generation)"
    by (rule unatSuc)
  then have "unat (generation + 1) = Suc (unat generation)"
    by (simp add: add.commute)
  with below show "((env, opts, P, generation + 1, st'), (env, opts, P, generation, st))
      \<in> measure (\<lambda>(env, opts, P, generation, st). unat (max_generations opts - 1) - unat generation)"
    for st' :: "('c, 'w) ga_state"
    by simp
qed

declare ga_loop.simps [simp del]

text \<open>
  Lines 94-107: the state the loop starts from. \<^verbatim>\<open>prevGeneration[max_init]\<close> reads
  element 0 of an empty vector when the population size is 0.
\<close>

definition ga_init ::
  "('c, 'w) Env \<Rightarrow> ('c, 'w) Options \<Rightarrow> ('c, 'w) Populator \<Rightarrow> 'w \<Rightarrow> error \<times> 'w + ('c, 'w) ga_state"
where
  "ga_init env opts P w =
     (case init_population env P (population_size opts) w of (prev, max_init, w1) \<Rightarrow>
        if max_init < length prev then
          (case survive P (prev ! max_init) w1 of (b, w2) \<Rightarrow>
             Inr \<lparr>prevGeneration = prev, best = b, deadRounds = 0, world = w2, cerr = []\<rparr>)
        else Inl (OutOfRange, w1))"

text \<open>Lines 80-186: \<^verbatim>\<open>GeneticAlgorithm::run\<close>.\<close>

definition ga_run ::
  "('c, 'w) Env \<Rightarrow> ('c, 'w) Options \<Rightarrow> 'w \<Rightarrow> error \<times> 'w + 'c \<times> 'w \<times> real event list"
where
  "ga_run env opts w =
     (case populator opts of
        None \<Rightarrow> Inl (InvalidArgument ''must set a Populator'', w)
      | Some P \<Rightarrow>
          if population_size opts mod 2 = 1
          then Inl (InvalidArgument ''pppulation_size must be even'', w)
          else
            (case ga_init env opts P w of
               Inl e \<Rightarrow> Inl e
             | Inr st \<Rightarrow> ga_loop env opts P 0 st))"

section \<open>The hill-climbing engine (HillClimbingAlgorithm.h)\<close>

text \<open>
  \<^verbatim>\<open>HillClimbingPopulator<T>\<close> and \<^verbatim>\<open>HillClimbingOptions<T, Fitness>\<close>, by the
  members \<^verbatim>\<open>run\<close> uses. The two budgets are only compared with counters that
  start at 0 and go up by one, so they are natural numbers. The fitness type is any
  linear order (\<^verbatim>\<open>size_t\<close> by default).
\<close>

record ('c, 'w) HillClimbingPopulator =
  hc_generate :: "'w \<Rightarrow> 'c \<times> 'w"
  generateNeighbour :: "'c \<Rightarrow> 'w \<Rightarrow> 'c \<times> 'w"

record ('c, 'w, 'f) HillClimbingOptions =
  hc_populator :: "('c, 'w) HillClimbingPopulator option"
  max_rounds :: nat
  max_iterations_per_round :: nat
  hc_fitness_success_threshold :: 'f

text \<open>
  The class itself: the candidate's \<^verbatim>\<open>fitness()\<close> and the two virtual members
  \<^verbatim>\<open>initState\<close> and \<^verbatim>\<open>accept\<close>, which a heuristic overrides; \<^verbatim>\<open>accept\<close> may change
  the state it is given and draw on the shared generator.
\<close>

record ('c, 'w, 'f, 's) HillClimbingAlgorithm =
  hc_fitness :: "'c \<Rightarrow> 'f"
  initState :: "('c, 'w, 'f) HillClimbingOptions \<Rightarrow> 's"
  accept :: "'c \<Rightarrow> 'c \<Rightarrow> ('c, 'w, 'f) HillClimbingOptions \<Rightarrow> 's \<Rightarrow> 'w \<Rightarrow> bool \<times> 's \<times> 'w"

text \<open>Lines 83-96: the members as the base class defines them.\<close>

definition default_algorithm :: "('c \<Rightarrow> 'f::linorder) \<Rightarrow> 's \<Rightarrow> ('c, 'w, 'f, 's) HillClimbingAlgorithm" where
  "default_algorithm fit s0 =
     \<lparr>hc_fitness = fit,
      initState = (\<lambda>opts. s0),
      accept = (\<lambda>next cur opts s w. (fit next > fit cur, s, w))\<rparr>"

text \<open>
  The variables of \<^verbatim>\<open>run\<close>: \<^verbatim>\<open>best\<close> is a pointer that starts null, so it is an
  option.
\<close>

record ('c, 'w, 'f, 's) hc_state =
  cur :: 'c
  state :: 's
  hc_best :: "'c option"
  hc_world :: 'w
  hc_cerr :: "'f event list"

text \<open>Lines 57-70: the body of the iteration loop.\<close>

definition hc_iteration ::
  "('c, 'w, 'f::linorder, 's) HillClimbingAlgorithm \<Rightarrow> ('c, 'w, 'f) HillClimbingOptions
     \<Rightarrow> ('c, 'w) HillClimbingPopulator \<Rightarrow> ('c, 'w, 'f, 's) hc_state
     \<Rightarrow> (('c, 'w, 'f, 's) hc_state, ('c, 'w, 'f, 's) hc_state) flow"
where
  "hc_iteration alg opts P st =
     (case generateNeighbour P (cur st) (hc_world st) of (next, w1) \<Rightarrow>
      case accept alg next (cur st) opts (state st) w1 of (accepted, s', w2) \<Rightarrow>
        let cur' = (if accepted then next else cur st) in
        if hc_fitness alg cur' \<ge> hc_fitness_success_threshold opts
        then Returned (st\<lparr>cur := cur', state := s', hc_world := w2\<rparr>)
        else if (case hc_best st of None \<Rightarrow> True
                 | Some b \<Rightarrow> hc_fitness alg b < hc_fitness alg cur')
        then Continue (st\<lparr>cur := cur', state := s', hc_best := Some cur', hc_world := w2,
                           hc_cerr := hc_cerr st @ [Best (hc_fitness alg cur')]\<rparr>)
        else Continue (st\<lparr>cur := cur', state := s', hc_world := w2\<rparr>))"

text \<open>
  Line 56: the iteration loop, by the number of iterations still to run (the counter
  itself is not read in the body).
\<close>

fun hc_iterations ::
  "('c, 'w, 'f::linorder, 's) HillClimbingAlgorithm \<Rightarrow> ('c, 'w, 'f) HillClimbingOptions
     \<Rightarrow> ('c, 'w) HillClimbingPopulator \<Rightarrow> nat \<Rightarrow> ('c, 'w, 'f, 's) hc_state
     \<Rightarrow> (('c, 'w, 'f, 's) hc_state, ('c, 'w, 'f, 's) hc_state) flow"
where
  "hc_iterations alg opts P 0 st = Continue st"
| "hc_iterations alg opts P (Suc n) st =
     (case hc_iteration alg opts P st of
        Returned st' \<Rightarrow> Returned st'
      | Continue st' \<Rightarrow> hc_iterations alg opts P n st')"

text \<open>
  Lines 49-72: the round loop, by the number of rounds still to run. Only
  \<^verbatim>\<open>best\<close>, the world and the output outlive a round.
\<close>

fun hc_rounds ::
  "('c, 'w, 'f::linorder, 's) HillClimbingAlgorithm \<Rightarrow> ('c, 'w, 'f) HillClimbingOptions
     \<Rightarrow> ('c, 'w) HillClimbingPopulator \<Rightarrow> nat \<Rightarrow> 'c option \<times> 'w \<times> 'f event list
     \<Rightarrow> (('c, 'w, 'f, 's) hc_state, 'c option \<times> 'w \<times> 'f event list) flow"
where
  "hc_rounds alg opts P 0 v = Continue v"
| "hc_rounds alg opts P (Suc n) (b, w, out) =
     (case hc_generate P w of (c, w1) \<Rightarrow>
        (case hc_iterations alg opts P (max_iterations_per_round opts)
                \<lparr>cur = c, state = initState alg opts, hc_best = b, hc_world = w1, hc_cerr = out\<rparr> of
           Returned st' \<Rightarrow> Returned st'
         | Continue st' \<Rightarrow> hc_rounds alg opts P n (hc_best st', hc_world st', hc_cerr st')))"

text \<open>
  Lines 41-76: \<^verbatim>\<open>HillClimbingAlgorithm::run\<close>. The result is a pointer: the current
  candidate of a successful iteration, or \<^verbatim>\<open>best\<close>, which is null (\<open>None\<close>) when it
  was never set.
\<close>

definition hc_run ::
  "('c, 'w, 'f::linorder, 's) HillClimbingAlgorithm \<Rightarrow> ('c, 'w, 'f) HillClimbingOptions \<Rightarrow> 'w
     \<Rightarrow> error \<times> 'w + 'c option \<times> 'w \<times> 'f event list"
where
  "hc_run alg opts w =
     (case hc_populator opts of
        None \<Rightarrow> Inl (InvalidArgument ''must set an HillClimbingPopulator'', w)
      | Some P \<Rightarrow>
          (case hc_rounds alg opts P (max_rounds opts) (None, w, []) of
             Returned st \<Rightarrow> Inr (Some (cur st), hc_world st, hc_cerr st)
           | Continue (b, w', out) \<Rightarrow> Inr (b, w', out)))"

section \<open>Crossover of Sudoku boards (GenSudokuBoardGAPopulator.h)\<close>

text \<open>
  A board of size parameter \<open>N\<close> holds \<open>NN * NN\<close> cells, \<open>NN = N * N\<close>, row by row; it
  is the list of its cells. The board class is not among the sources at hand: the
  board a default constructor makes is the parameter \<open>blank\<close>, and \<^verbatim>\<open>(*c)[k] = v\<close>
  stores \<open>v\<close> in cell \<open>k\<close>. \<open>coin\<close> is a draw of
  \<^verbatim>\<open>std::uniform_int_distribution{0, 1}\<close> on the shared generator.
\<close>

type_synonym board = "nat list"

text \<open>Lines 106-109 and 111-114: row \<open>i\<close> of \<open>a\<close> goes to \<open>c0\<close>, row \<open>i\<close> of \<open>b\<close> to \<open>c1\<close>.\<close>

definition copy_row :: "nat \<Rightarrow> nat \<Rightarrow> board \<Rightarrow> board \<Rightarrow> board \<times> board \<Rightarrow> board \<times> board" where
  "copy_row NN i a b cs =
     fold (\<lambda>j (c0, c1). (c0[i * NN + j := a ! (i * NN + j)], c1[i * NN + j := b ! (i * NN + j)]))
       [0..<NN] cs"

definition crossover_row ::
  "('w \<Rightarrow> int \<times> 'w) \<Rightarrow> nat \<Rightarrow> board \<Rightarrow> board \<Rightarrow> nat \<Rightarrow> (board \<times> board) \<times> 'w \<Rightarrow> (board \<times> board) \<times> 'w"
where
  "crossover_row coin NN p0 p1 i s =
     (case s of (cs, w) \<Rightarrow>
        (case coin w of (d, w') \<Rightarrow>
           if d = 0 then (copy_row NN i p0 p1 cs, w') else (copy_row NN i p1 p0 cs, w')))"

text \<open>Lines 94-119: \<^verbatim>\<open>GenSudokuBoardGAPopulator::crossover\<close>.\<close>

definition sudoku_crossover ::
  "('w \<Rightarrow> int \<times> 'w) \<Rightarrow> nat \<Rightarrow> board \<Rightarrow> board \<Rightarrow> board \<Rightarrow> 'w \<Rightarrow> (board \<times> board) \<times> 'w"
where
  "sudoku_crossover coin NN blank p0 p1 w =
     fold (crossover_row coin NN p0 p1) [0..<NN] ((blank, blank), w)"

text \<open>The cells of row \<open>i\<close> of a board.\<close>

definition row :: "nat \<Rightarrow> nat \<Rightarrow> board \<Rightarrow> nat list" where
  "row NN i b = take NN (drop (i * NN) b)"

section \<open>Notions the statements use\<close>

text \<open>
  \<open>k\<close> passes through the body of the generation loop, the first with the counter
  at \<open>generation\<close>: what the loop does while its condition holds. A pass that
  returns or fails ends the sequence.
\<close>

fun ga_generations ::
  "('c, 'w) Env \<Rightarrow> ('c, 'w) Options \<Rightarrow> ('c, 'w) Populator \<Rightarrow> nat \<Rightarrow> 64 word \<Rightarrow> ('c, 'w) ga_state
     \<Rightarrow> error \<times> 'w + (('c, 'w) ga_state, ('c, 'w) ga_state) flow"
where
  "ga_generations env opts P 0 generation st = Inr (Continue st)"
| "ga_generations env opts P (Suc k) generation st =
     (case ga_generation env opts P generation st of
        Inl e \<Rightarrow> Inl e
      | Inr (Returned st') \<Rightarrow> Inr (Returned st')
      | Inr (Continue st') \<Rightarrow> ga_generations env opts P k (generation + 1) st')"


fun flow_state :: "('s, 's) flow \<Rightarrow> 's" where
  "flow_state (Returned st) = st"
| "flow_state (Continue st) = st"


text \<open>
  The populator contract for \<^verbatim>\<open>survive\<close>: the candidate it returns is a copy, so it
  has the fitness of the original.
\<close>

definition survive_copies :: "('c, 'w) Env \<Rightarrow> ('c, 'w) Populator \<Rightarrow> bool" where
  "survive_copies env P = (\<forall>c w. fitness env (fst (survive P c w)) = fitness env c)"

text \<open>The fitness values the hill-climbing engine reports as \<^verbatim>\<open>Best\<close>, in order.\<close>

fun best_values :: "'f event list \<Rightarrow> 'f list" where
  "best_values [] = []"
| "best_values (Best f # out) = f # best_values out"
| "best_values (e # out) = best_values out"

text \<open>
  The crossover draws one coin per row, in row order: the world after the coins of
  the first \<open>m\<close> rows, and the coin of row \<open>i\<close>.
\<close>

definition world_after_flips :: "('w \<Rightarrow> int \<times> 'w) \<Rightarrow> nat \<Rightarrow> 'w \<Rightarrow> 'w" where
  "world_after_flips coin m w = ((\<lambda>v. snd (coin v)) ^^ m) w"

definition row_flip :: "('w \<Rightarrow> int \<times> 'w) \<Rightarrow> nat \<Rightarrow> 'w \<Rightarrow> int" where
  "row_flip coin i w = fst (coin (world_after_flips coin i w))"

text \<open>
  The hill-climbing output agrees with \<^verbatim>\<open>best\<close>: the values reported so far increase
  strictly, none was reported while \<^verbatim>\<open>best\<close> is null, and the last one is the fitness
  of \<^verbatim>\<open>best\<close>.
\<close>

definition recorded_best :: "('c \<Rightarrow> 'f::linorder) \<Rightarrow> 'c option \<Rightarrow> 'f event list \<Rightarrow> bool" where
  "recorded_best fit b out =
     (sorted_wrt (<) (best_values out)
      \<and> (case b of None \<Rightarrow> best_values out = []
          | Some c \<Rightarrow> best_values out \<noteq> [] \<and> fit c = last (best_values out)))"



section \<open>Small instances\<close>

text \<open>
  Candidates are natural numbers, a candidate is its own fitness, and the world is
  the list of the numbers still to be drawn (0 once it is empty).
\<close>

definition toy_next :: "nat list \<Rightarrow> nat \<times> nat list" where
  "toy_next w = (case w of [] \<Rightarrow> (0, []) | x # xs \<Rightarrow> (x, xs))"

definition toy_populator :: "(nat, nat list) Populator" where
  "toy_populator =
     \<lparr>generate = toy_next,
      mutate = (\<lambda>c w. (c + 1, w)),
      crossover = (\<lambda>a b w. ((b, a), w)),
      survive = (\<lambda>c w. (c, w))\<rparr>"

definition toy_env :: "(nat, nat list) Env" where
  "toy_env =
     \<lparr>fitness = real,
      probabilityGenerator = (\<lambda>w. case toy_next w of (x, w') \<Rightarrow> (real x / 10, w')),
      shuffle = (\<lambda>xs w. (rev xs, w))\<rparr>"

definition toy_options :: "(nat, nat list) Options" where
  "toy_options =
     \<lparr>populator = Some toy_populator,
      population_size = 2,
      max_generations = 3,
      crossover_probability = 3 / 10,
      selector = (\<lambda>pop w. case toy_next w of (x, w') \<Rightarrow> (x mod length pop, w')),
      mutation_probability = 1 / 10,
      fitness_success_threshold = 100,
      fitness_death_threshold = 0,
      fitness_death_factor = 0,
      permissible_dead_rounds = - 1,
      output_rounds = 1000\<rparr>"

text \<open>The loop variables after an initial population \<open>[5, 7]\<close>.\<close>

definition toy_state :: "(nat, nat list) ga_state" where
  "toy_state = \<lparr>prevGeneration = [5, 7], best = 7, deadRounds = 0, world = [0, 1, 1, 0, 5, 9], cerr = []\<rparr>"

text \<open>A generation in which the draw 9 lets both candidates survive.\<close>

definition stalled_state :: "(nat, nat list) ga_state" where
  "stalled_state = \<lparr>prevGeneration = [5, 7], best = 7, deadRounds = 0, world = [9, 3, 4], cerr = []\<rparr>"

text \<open>A generation that holds a candidate of fitness 0.\<close>

definition unfit_state :: "(nat, nat list) ga_state" where
  "unfit_state = \<lparr>prevGeneration = [0, 7], best = 7, deadRounds = 0, world = [9, 4], cerr = []\<rparr>"

text \<open>
  Candidates that tie: the fitness is the tens digit, so 31 and 32 are equally fit.
\<close>

definition tie_env :: "(nat, nat list) Env" where
  "tie_env = toy_env\<lparr>fitness := (\<lambda>c. real (c div 10))\<rparr>"

definition tie_state :: "(nat, nat list) ga_state" where
  "tie_state = \<lparr>prevGeneration = [10, 31, 32, 20], best = 20, deadRounds = 0, world = [9, 9], cerr = []\<rparr>"


text \<open>A populator that counts its \<^verbatim>\<open>generate\<close> calls: the world is the counter.\<close>

definition counting_populator :: "(nat, nat) Populator" where
  "counting_populator =
     \<lparr>generate = (\<lambda>n. (0, Suc n)),
      mutate = (\<lambda>c n. (c, n)),
      crossover = (\<lambda>a b n. ((a, b), n)),
      survive = (\<lambda>c n. (c, n))\<rparr>"

definition counting_env :: "(nat, nat) Env" where
  "counting_env =
     \<lparr>fitness = real, probabilityGenerator = (\<lambda>n. (0, n)), shuffle = (\<lambda>xs n. (xs, n))\<rparr>"

definition counting_options :: "(nat, nat) Options" where
  "counting_options =
     \<lparr>populator = Some counting_populator,
      population_size = 3,
      max_generations = - 1,
      crossover_probability = 3 / 10,
      selector = (\<lambda>pop n. (0, n)),
      mutation_probability = 1 / 10,
      fitness_success_threshold = 1,
      fitness_death_threshold = 0,
      fitness_death_factor = 0,
      permissible_dead_rounds = - 1,
      output_rounds = 1000\<rparr>"

text \<open>Hill climbing on the same candidates: a neighbour is the next number drawn.\<close>

definition toy_climber :: "(nat, nat list) HillClimbingPopulator" where
  "toy_climber = \<lparr>hc_generate = toy_next, generateNeighbour = (\<lambda>c w. toy_next w)\<rparr>"

definition toy_climbing :: "(nat, nat list, nat) HillClimbingOptions" where
  "toy_climbing =
     \<lparr>hc_populator = Some toy_climber,
      max_rounds = 2,
      max_iterations_per_round = 2,
      hc_fitness_success_threshold = 100\<rparr>"

text \<open>
  A heuristic that overrides \<^verbatim>\<open>accept\<close> to take every neighbour, on candidates that
  start at 10 and whose neighbour is one less.
\<close>

definition always_accept :: "(nat, unit, nat, unit) HillClimbingAlgorithm" where
  "always_accept = (default_algorithm id ())\<lparr>accept := (\<lambda>next cur opts s w. (True, s, w))\<rparr>"

definition downhill_climber :: "(nat, unit) HillClimbingPopulator" where
  "downhill_climber = \<lparr>hc_generate = (\<lambda>w. (10, w)), generateNeighbour = (\<lambda>c w. (c - 1, w))\<rparr>"

definition downhill_climbing :: "(nat, unit, nat) HillClimbingOptions" where
  "downhill_climbing =
     \<lparr>hc_populator = Some downhill_climber,
      max_rounds = 1,
      max_iterations_per_round = 2,
      hc_fitness_success_threshold = 10\<rparr>"

text \<open>Two boards for \<open>N = 2\<close>, and coins read off a list.\<close>

definition toy_coin :: "int list \<Rightarrow> int \<times> int list" where
  "toy_coin w = (case w of [] \<Rightarrow> (0, []) | x # xs \<Rightarrow> (x, xs))"

definition board_a :: board where
  "board_a = [1, 2, 3, 4,  3, 4, 1, 2,  2, 1, 4, 3,  4, 3, 2, 1]"

definition board_b :: board where
  "board_b = [4, 3, 2, 1,  2, 1, 4, 3,  3, 4, 1, 2,  1, 2, 3, 4]"

section \<open>Configuration errors\<close>

text \<open>
  C4. With no populator, \<^verbatim>\<open>run\<close> of either engine throws \<^verbatim>\<open>std::invalid_argument\<close>,
  and so does the genetic engine on an odd population size; the world the error
  comes with is the world \<^verbatim>\<open>run\<close> was given, so no populator operation (no
  \<^verbatim>\<open>generate\<close> in particular) and no draw has taken place.
\<close>

theorem run_rejects_configuration:
  "(populator opts = None \<longrightarrow>
      ga_run env opts w = Inl (InvalidArgument ''must set a Populator'', w))
   \<and> (populator opts \<noteq> None \<and> odd (population_size opts) \<longrightarrow>
      ga_run env opts w = Inl (InvalidArgument ''pppulation_size must be even'', w))
   \<and> (hc_populator hopts = None \<longrightarrow>
      hc_run alg hopts hw = Inl (InvalidArgument ''must set an HillClimbingPopulator'', hw))"
  by (auto simp: ga_run_def hc_run_def odd_iff_mod_2_eq_one)

theorem run_rejects_configuration_witness:
  "ga_run counting_env (counting_options\<lparr>populator := None\<rparr>) 0
     = Inl (InvalidArgument ''must set a Populator'', 0)
   \<and> ga_run counting_env counting_options 0
     = Inl (InvalidArgument ''pppulation_size must be even'', 0)
   \<and> hc_run (default_algorithm id ()) (toy_climbing\<lparr>hc_populator := None\<rparr>) [5, 7]
     = Inl (InvalidArgument ''must set an HillClimbingPopulator'', [5, 7])"
  using run_rejects_configuration
    [of "counting_options\<lparr>populator := None\<rparr>" counting_env 0
        "toy_climbing\<lparr>hc_populator := None\<rparr>" "default_algorithm id ()" "[5, 7]"]
    run_rejects_configuration
    [of counting_options counting_env 0
        "toy_climbing\<lparr>hc_populator := None\<rparr>" "default_algorithm id ()" "[5, 7]"]
  by (simp add: counting_options_def toy_climbing_def)

section \<open>The fittest candidate\<close>

lemma max_element_prefix:
  fixes f :: "'a \<Rightarrow> 'b::linorder"
  assumes "m \<le> length xs" "0 < m"
  defines "k \<equiv> fold (\<lambda>i largest. if f (xs ! largest) < f (xs ! i) then i else largest) [1..<m] 0"
  shows "k < m \<and> (\<forall>j<m. f (xs ! j) \<le> f (xs ! k)) \<and> (\<forall>j<k. f (xs ! j) < f (xs ! k))"
  using assms(1,2) unfolding k_def
proof (induction m)
  case 0
  then show ?case by simp
next
  case (Suc m)
  show ?case
  proof (cases "m = 0")
    case True
    then show ?thesis by simp
  next
    case False
    then have m: "0 < m" "m \<le> length xs" using Suc.prems by auto
    let ?k = "fold (\<lambda>i largest. if f (xs ! largest) < f (xs ! i) then i else largest) [1..<m] 0"
    have ih: "?k < m \<and> (\<forall>j<m. f (xs ! j) \<le> f (xs ! ?k)) \<and> (\<forall>j<?k. f (xs ! j) < f (xs ! ?k))"
      using Suc.IH m by simp
    have upt: "[1..<Suc m] = [1..<m] @ [m]"
      using m by simp
    show ?thesis
      unfolding upt fold_append
      using ih by (auto simp: less_Suc_eq)
  qed
qed

lemma max_element_first_maximum:
  fixes f :: "'a \<Rightarrow> 'b::linorder"
  assumes "xs \<noteq> []"
  defines "k \<equiv> max_element (\<lambda>s1 s2. f s1 < f s2) xs"
  shows "k < length xs" "\<forall>j<length xs. f (xs ! j) \<le> f (xs ! k)" "\<forall>j<k. f (xs ! j) < f (xs ! k)"
  using max_element_prefix [of "length xs" xs f] assms
  by (simp_all add: max_element_def)

lemma init_population_Suc:
  "init_population env P (Suc n) w = init_step env P n (init_population env P n w)"
  by (simp add: init_population_def)

lemma init_population_0: "init_population env P 0 w = ([], 0, w)"
  by (simp add: init_population_def)

lemma length_init_population: "length (fst (init_population env P n w)) = n"
  by (induction n)
    (auto simp: init_population_0 init_population_Suc init_step_def Let_def split: prod.splits)

lemma init_population_max:
  assumes "init_population env P n w = (prev, k, w')" "0 < n"
  shows "k < n \<and> (\<forall>j<n. fitness env (prev ! j) \<le> fitness env (prev ! k))
           \<and> (\<forall>j<k. fitness env (prev ! j) < fitness env (prev ! k))"
  using assms
proof (induction n arbitrary: prev k w')
  case 0
  then show ?case by simp
next
  case (Suc n)
  obtain prev0 k0 w0 where s0: "init_population env P n w = (prev0, k0, w0)"
    by (cases "init_population env P n w") auto
  obtain c w1 where g: "generate P w0 = (c, w1)"
    by (cases "generate P w0") auto
  have len: "length prev0 = n"
    using length_init_population [of env P n w] s0 by simp
  have prev: "prev = prev0 @ [c]"
    and k: "k = (if fitness env ((prev0 @ [c]) ! n) > fitness env ((prev0 @ [c]) ! k0) then n else k0)"
    using Suc.prems(1) s0 g by (auto simp: init_population_Suc init_step_def Let_def)
  show ?case
  proof (cases "n = 0")
    case True
    then have "k0 = 0" using s0 by (simp add: init_population_0)
    with True len prev k show ?thesis by simp
  next
    case False
    then have ih: "k0 < n" "\<forall>j<n. fitness env (prev0 ! j) \<le> fitness env (prev0 ! k0)"
      "\<forall>j<k0. fitness env (prev0 ! j) < fitness env (prev0 ! k0)"
      using Suc.IH [OF s0] by auto
    show ?thesis
      using ih len unfolding prev k
      by (auto simp: nth_append less_Suc_eq)
  qed
qed

section \<open>The number of generations\<close>




section \<open>Crossover of boards\<close>

lemma copy_row_prefix:
  fixes a b :: board
  assumes "i * NN + m \<le> length c0" "i * NN + m \<le> length c1"
  defines "r \<equiv> fold (\<lambda>j (c0, c1). (c0[i * NN + j := a ! (i * NN + j)], c1[i * NN + j := b ! (i * NN + j)]))
       [0..<m] (c0, c1)"
  shows "length (fst r) = length c0 \<and> length (snd r) = length c1
    \<and> (\<forall>k. fst r ! k = (if i * NN \<le> k \<and> k < i * NN + m then a ! k else c0 ! k))
    \<and> (\<forall>k. snd r ! k = (if i * NN \<le> k \<and> k < i * NN + m then b ! k else c1 ! k))"
  using assms(1,2) unfolding r_def
proof (induction m)
  case 0
  then show ?case by simp
next
  case (Suc m)
  let ?F = "\<lambda>j (c0, c1). (c0[i * NN + j := a ! (i * NN + j)], c1[i * NN + j := b ! (i * NN + j)])"
  obtain d0 d1 where d: "fold ?F [0..<m] (c0, c1) = (d0, d1)"
    by (cases "fold ?F [0..<m] (c0, c1)") auto
  have ih: "length d0 = length c0" "length d1 = length c1"
    "\<forall>k. d0 ! k = (if i * NN \<le> k \<and> k < i * NN + m then a ! k else c0 ! k)"
    "\<forall>k. d1 ! k = (if i * NN \<le> k \<and> k < i * NN + m then b ! k else c1 ! k)"
    using Suc.IH Suc.prems d by auto
  have in0: "i * NN + m < length d0" and in1: "i * NN + m < length d1"
    using Suc.prems ih(1,2) by auto
  have step: "fold ?F [0..<Suc m] (c0, c1)
      = (d0[i * NN + m := a ! (i * NN + m)], d1[i * NN + m := b ! (i * NN + m)])"
    using d by simp
  show ?case
    unfolding step using ih in0 in1
    by (auto simp: nth_list_update)
qed

lemma copy_row_cells:
  assumes "i * NN + NN \<le> length c0" "i * NN + NN \<le> length c1"
    and "copy_row NN i a b (c0, c1) = (d0, d1)"
  shows "length d0 = length c0" "length d1 = length c1"
    "d0 ! k = (if i * NN \<le> k \<and> k < i * NN + NN then a ! k else c0 ! k)"
    "d1 ! k = (if i * NN \<le> k \<and> k < i * NN + NN then b ! k else c1 ! k)"
  using copy_row_prefix [OF assms(1,2), of a b] assms(3)
  by (simp_all add: copy_row_def)

lemma cell_of_earlier_row:
  fixes i j m NN :: nat
  assumes "i < m" "j < NN"
  shows "i * NN + j < m * NN"
proof -
  have "i * NN + j < i * NN + NN" using assms(2) by simp
  also have "\<dots> = Suc i * NN" by simp
  also have "\<dots> \<le> m * NN" using assms(1) by (intro mult_le_mono1) simp
  finally show ?thesis .
qed

lemma crossover_rows_prefix:
  assumes "m \<le> NN" "length blank = NN * NN"
    and "fold (crossover_row coin NN p0 p1) [0..<m] ((blank, blank), w) = ((c0, c1), w')"
  shows "w' = world_after_flips coin m w \<and> length c0 = NN * NN \<and> length c1 = NN * NN
    \<and> (\<forall>i<m. \<forall>j<NN.
          c0 ! (i * NN + j) = (if row_flip coin i w = 0 then p0 else p1) ! (i * NN + j)
        \<and> c1 ! (i * NN + j) = (if row_flip coin i w = 0 then p1 else p0) ! (i * NN + j))"
  using assms(1,3)
proof (induction m arbitrary: c0 c1 w')
  case 0
  then show ?case using assms(2) by (auto simp: world_after_flips_def)
next
  case (Suc m)
  obtain d0 d1 v where prev: "fold (crossover_row coin NN p0 p1) [0..<m] ((blank, blank), w) = ((d0, d1), v)"
    by (metis surj_pair)
  have ih: "v = world_after_flips coin m w" "length d0 = NN * NN" "length d1 = NN * NN"
    "\<forall>i<m. \<forall>j<NN.
          d0 ! (i * NN + j) = (if row_flip coin i w = 0 then p0 else p1) ! (i * NN + j)
        \<and> d1 ! (i * NN + j) = (if row_flip coin i w = 0 then p1 else p0) ! (i * NN + j)"
    using Suc.IH [OF _ prev] Suc.prems(1) by auto
  obtain d v' where flip: "coin v = (d, v')"
    by (metis surj_pair)
  have d: "d = row_flip coin m w" and v': "v' = world_after_flips coin (Suc m) w"
    using flip ih(1) by (simp_all add: row_flip_def world_after_flips_def)
  have room: "m * NN + NN \<le> length d0" "m * NN + NN \<le> length d1"
  proof -
    have "m * NN + NN = Suc m * NN" by simp
    also have "\<dots> \<le> NN * NN" using Suc.prems(1) by (intro mult_le_mono1) simp
    finally show "m * NN + NN \<le> length d0" "m * NN + NN \<le> length d1"
      using ih(2,3) by simp_all
  qed
  define a where "a = (if d = 0 then p0 else p1)"
  define b where "b = (if d = 0 then p1 else p0)"
  have "crossover_row coin NN p0 p1 m ((d0, d1), v) = ((c0, c1), w')"
    using Suc.prems(2) prev by simp
  then have step: "copy_row NN m a b (d0, d1) = (c0, c1)" and w': "w' = v'"
    using flip by (auto simp: crossover_row_def a_def b_def split: if_splits)
  note cells = copy_row_cells [OF room step]
  have old: "c0 ! (i * NN + j) = d0 ! (i * NN + j) \<and> c1 ! (i * NN + j) = d1 ! (i * NN + j)"
    if "i < m" "j < NN" for i j
    using cell_of_earlier_row [OF that] cells(3,4) [of "i * NN + j"] by simp
  have new: "c0 ! (m * NN + j) = a ! (m * NN + j) \<and> c1 ! (m * NN + j) = b ! (m * NN + j)"
    if "j < NN" for j
    using that cells(3,4) [of "m * NN + j"] by simp
  show ?case
  proof (intro conjI allI impI)
    show "w' = world_after_flips coin (Suc m) w" using w' v' by simp
    show "length c0 = NN * NN" "length c1 = NN * NN" using cells(1,2) ih(2,3) by simp_all
  next
    fix i j assume ij: "i < Suc m" "j < NN"
    show "c0 ! (i * NN + j) = (if row_flip coin i w = 0 then p0 else p1) ! (i * NN + j)"
      using ij old [of i j] new [of j] ih(4) d by (cases "i = m") (auto simp: a_def)
    show "c1 ! (i * NN + j) = (if row_flip coin i w = 0 then p1 else p0) ! (i * NN + j)"
      using ij old [of i j] new [of j] ih(4) d by (cases "i = m") (auto simp: b_def)
  qed
qed

lemma row_eqI:
  assumes "length a = NN * NN" "length b = NN * NN" "i < NN"
    and "\<forall>j<NN. a ! (i * NN + j) = b ! (i * NN + j)"
  shows "row NN i a = row NN i b"
proof -
  have "Suc i * NN \<le> NN * NN" using assms(3) by (intro mult_le_mono1) simp
  then have room: "i * NN + NN \<le> NN * NN" by simp
  show ?thesis
    unfolding row_def
    using assms room by (intro nth_equalityI) auto
qed

text \<open>
  C10. For boards of \<open>NN * NN\<close> cells and every row \<open>i\<close>, the crossover copies the
  whole row \<open>i\<close> of one parent into the first child and row \<open>i\<close> of the other parent
  into the second child: of \<open>p0\<close> and \<open>p1\<close> when the coin of the row is 0, of \<open>p1\<close>
  and \<open>p0\<close> otherwise. One coin is drawn per row, the coin of row \<open>i\<close> being the
  \<open>i\<close>-th draw.
\<close>

theorem crossover_swaps_rows:
  assumes "length blank = NN * NN" "length p0 = NN * NN" "length p1 = NN * NN"
    and "sudoku_crossover coin NN blank p0 p1 w = ((c0, c1), w')" and "i < NN"
  shows "(row_flip coin i w = 0 \<longrightarrow> row NN i c0 = row NN i p0 \<and> row NN i c1 = row NN i p1)
       \<and> (row_flip coin i w \<noteq> 0 \<longrightarrow> row NN i c0 = row NN i p1 \<and> row NN i c1 = row NN i p0)
       \<and> w' = world_after_flips coin NN w \<and> length c0 = NN * NN \<and> length c1 = NN * NN"
proof -
  have fold: "fold (crossover_row coin NN p0 p1) [0..<NN] ((blank, blank), w) = ((c0, c1), w')"
    using assms(4) by (simp add: sudoku_crossover_def)
  note inv = crossover_rows_prefix [OF le_refl assms(1) fold]
  have len: "length c0 = NN * NN" "length c1 = NN * NN" using inv by simp_all
  have cells: "\<forall>j<NN. c0 ! (i * NN + j) = (if row_flip coin i w = 0 then p0 else p1) ! (i * NN + j)"
    "\<forall>j<NN. c1 ! (i * NN + j) = (if row_flip coin i w = 0 then p1 else p0) ! (i * NN + j)"
    using inv assms(5) by simp_all
  have r0: "row NN i c0 = row NN i (if row_flip coin i w = 0 then p0 else p1)"
    using cells(1) len assms(2,3,5) by (intro row_eqI) auto
  have r1: "row NN i c1 = row NN i (if row_flip coin i w = 0 then p1 else p0)"
    using cells(2) len assms(2,3,5) by (intro row_eqI) auto
  show ?thesis
    using r0 r1 inv len by simp
qed

theorem crossover_swaps_rows_witness:
  "sudoku_crossover toy_coin 4 (replicate 16 0) board_a board_b [0, 1, 1, 0]
     = (([1, 2, 3, 4,  2, 1, 4, 3,  3, 4, 1, 2,  4, 3, 2, 1],
         [4, 3, 2, 1,  3, 4, 1, 2,  2, 1, 4, 3,  1, 2, 3, 4]), [])
   \<and> row_flip toy_coin 1 [0, 1, 1, 0] = 1
   \<and> row 4 1 [1, 2, 3, 4,  2, 1, 4, 3,  3, 4, 1, 2,  4, 3, 2, 1] = row 4 1 board_b
   \<and> row 4 1 [4, 3, 2, 1,  3, 4, 1, 2,  2, 1, 4, 3,  1, 2, 3, 4] = row 4 1 board_a"
proof -
  have run: "sudoku_crossover toy_coin 4 (replicate 16 0) board_a board_b [0, 1, 1, 0]
     = (([1, 2, 3, 4,  2, 1, 4, 3,  3, 4, 1, 2,  4, 3, 2, 1],
         [4, 3, 2, 1,  3, 4, 1, 2,  2, 1, 4, 3,  1, 2, 3, 4]), [])"
    by (simp add: sudoku_crossover_def crossover_row_def copy_row_def toy_coin_def
        board_a_def board_b_def upt_rec numeral_eq_Suc)
  have flip: "row_flip toy_coin 1 [0, 1, 1, 0] = 1"
    by (simp add: row_flip_def world_after_flips_def toy_coin_def)
  have h1: "length (replicate 16 (0::nat)) = 4 * 4" by simp
  have h2: "length board_a = 4 * 4" by (simp add: board_a_def)
  have h3: "length board_b = 4 * 4" by (simp add: board_b_def)
  have h5: "(1::nat) < 4" by simp
  show ?thesis
    using crossover_swaps_rows [OF h1 h2 h3 run h5] run flip by simp
qed


section \<open>Building the next generation\<close>

lemma breed_append:
  "breed env opts P prev (xs @ ys) acc w =
     (case breed env opts P prev xs acc w of
        Inl e \<Rightarrow> Inl e
      | Inr (acc', w') \<Rightarrow> breed env opts P prev ys acc' w')"
  by (induction xs arbitrary: acc w) (auto split: sum.splits prod.splits)

lemma breed_Suc:
  "breed env opts P prev [0..<Suc m] [] w = Inr (nextGeneration, w') \<longleftrightarrow>
     (\<exists>acc v a b. breed env opts P prev [0..<m] [] w = Inr (acc, v)
        \<and> breed_pair env opts P prev m v = Inr ((a, b), w') \<and> nextGeneration = acc @ [a, b])"
  by (auto simp: breed_append split: sum.splits prod.splits)

lemma length_breed:
  "breed env opts P prev [0..<m] [] w = Inr (nextGeneration, w') \<Longrightarrow> length nextGeneration = 2 * m"
  by (induction m arbitrary: nextGeneration w') (auto simp: breed_Suc simp del: upt_Suc)

lemma breed_slot:
  assumes "breed env opts P prev [0..<m] [] w = Inr (nextGeneration, w')" "i < m"
  shows "\<exists>acc v v'. breed env opts P prev [0..<i] [] w = Inr (acc, v)
           \<and> breed_pair env opts P prev i v
                = Inr ((nextGeneration ! (2 * i), nextGeneration ! (2 * i + 1)), v')"
  using assms
proof (induction m arbitrary: nextGeneration w')
  case 0
  then show ?case by simp
next
  case (Suc m)
  from Suc.prems(1) obtain acc v a b where
    acc: "breed env opts P prev [0..<m] [] w = Inr (acc, v)"
    and pair: "breed_pair env opts P prev m v = Inr ((a, b), w')"
    and nxt: "nextGeneration = acc @ [a, b]"
    unfolding breed_Suc by blast
  have len: "length acc = 2 * m"
    using acc by (rule length_breed)
  show ?case
  proof (cases "i = m")
    case True
    then show ?thesis
      using acc pair nxt len by (auto simp: nth_append)
  next
    case False
    then have "i < m" using Suc.prems(2) by simp
    from Suc.IH [OF acc this] show ?thesis
      using nxt len \<open>i < m\<close> by (auto simp: nth_append)
  qed
qed

text \<open>
  C5. Pair-slot \<open>i\<close> of a generation, at the world the earlier slots leave: when the
  draw is below \<^verbatim>\<open>crossover_probability\<close>, the selector picks two parents (two
  indices into the previous generation), \<^verbatim>\<open>crossover\<close> makes two children, and each
  child is mutated when a draw of its own is below \<^verbatim>\<open>mutation_probability\<close> and kept
  as it is otherwise; the results stand at positions \<open>2 * i\<close> and \<open>2 * i + 1\<close>.
  Otherwise these two positions hold the \<^verbatim>\<open>survive\<close> copies of the candidates at
  the same two positions of the previous generation.
\<close>

theorem pair_slot_crossover_or_survive:
  assumes "breed env opts P prev [0..<m] [] w = Inr (nextGeneration, w')" and "i < m"
  shows "\<exists>acc v. breed env opts P prev [0..<i] [] w = Inr (acc, v) \<and>
    (case probabilityGenerator env v of (r, w1) \<Rightarrow>
       if r < crossover_probability opts then
         (case selector opts prev w1 of (p0Idx, w2) \<Rightarrow>
          case selector opts prev w2 of (p1Idx, w3) \<Rightarrow>
          case crossover P (prev ! p0Idx) (prev ! p1Idx) w3 of ((c0, c1), w4) \<Rightarrow>
          case probabilityGenerator env w4 of (r0, w5) \<Rightarrow>
          case (if r0 < mutation_probability opts then mutate P c0 w5 else (c0, w5)) of (n0, w6) \<Rightarrow>
          case probabilityGenerator env w6 of (r1, w7) \<Rightarrow>
          case (if r1 < mutation_probability opts then mutate P c1 w7 else (c1, w7)) of (n1, w8) \<Rightarrow>
            p0Idx < length prev \<and> p1Idx < length prev
            \<and> nextGeneration ! (2 * i) = n0 \<and> nextGeneration ! (2 * i + 1) = n1)
       else
         (case survive P (prev ! (2 * i)) w1 of (s0, w2) \<Rightarrow>
          case survive P (prev ! (2 * i + 1)) w2 of (s1, w3) \<Rightarrow>
            2 * i + 1 < length prev
            \<and> nextGeneration ! (2 * i) = s0 \<and> nextGeneration ! (2 * i + 1) = s1))"
proof -
  from breed_slot [OF assms] obtain acc v v' where
    acc: "breed env opts P prev [0..<i] [] w = Inr (acc, v)"
    and pair: "breed_pair env opts P prev i v
                = Inr ((nextGeneration ! (2 * i), nextGeneration ! (2 * i + 1)), v')"
    by blast
  have slot: "case probabilityGenerator env v of (r, w1) \<Rightarrow>
       if r < crossover_probability opts then
         (case selector opts prev w1 of (p0Idx, w2) \<Rightarrow>
          case selector opts prev w2 of (p1Idx, w3) \<Rightarrow>
          case crossover P (prev ! p0Idx) (prev ! p1Idx) w3 of ((c0, c1), w4) \<Rightarrow>
          case probabilityGenerator env w4 of (r0, w5) \<Rightarrow>
          case (if r0 < mutation_probability opts then mutate P c0 w5 else (c0, w5)) of (n0, w6) \<Rightarrow>
          case probabilityGenerator env w6 of (r1, w7) \<Rightarrow>
          case (if r1 < mutation_probability opts then mutate P c1 w7 else (c1, w7)) of (n1, w8) \<Rightarrow>
            p0Idx < length prev \<and> p1Idx < length prev
            \<and> nextGeneration ! (2 * i) = n0 \<and> nextGeneration ! (2 * i + 1) = n1)
       else
         (case survive P (prev ! (2 * i)) w1 of (s0, w2) \<Rightarrow>
          case survive P (prev ! (2 * i + 1)) w2 of (s1, w3) \<Rightarrow>
            2 * i + 1 < length prev
            \<and> nextGeneration ! (2 * i) = s0 \<and> nextGeneration ! (2 * i + 1) = s1)"
    using pair unfolding breed_pair_def maybe_mutate_def
    by (auto split: prod.splits if_splits)
  show ?thesis
    by (rule exI [of _ acc], rule exI [of _ v]) (rule conjI [OF acc slot])
qed

theorem pair_slot_crossover_or_survive_witness:
  "breed toy_env toy_options toy_populator [5, 7, 6, 8] [0..<2] [] [0, 1, 2, 0, 5, 9]
     = Inr ([7, 7, 6, 8], [])
   \<and> breed toy_env toy_options toy_populator [5, 7, 6, 8] [0..<1] [] [0, 1, 2, 0, 5, 9]
     = Inr ([7, 7], [9])
   \<and> fst (probabilityGenerator toy_env [9]) \<ge> crossover_probability toy_options
   \<and> [7, 7, 6, 8] ! (2 * 1) = fst (survive toy_populator ([5, 7, 6, 8] ! (2 * 1)) [])"
proof -
  have run: "breed toy_env toy_options toy_populator [5, 7, 6, 8] [0..<2] [] [0, 1, 2, 0, 5, 9]
     = Inr ([7, 7, 6, 8], [])"
    by (simp add: breed_pair_def maybe_mutate_def toy_env_def toy_options_def
        toy_populator_def toy_next_def upt_rec)
  have slot: "(1::nat) < 2"
    by simp
  have before: "breed toy_env toy_options toy_populator [5, 7, 6, 8] [0..<1] [] [0, 1, 2, 0, 5, 9]
     = Inr ([7, 7], [9])"
    by (simp add: breed_pair_def maybe_mutate_def toy_env_def toy_options_def
        toy_populator_def toy_next_def upt_rec)
  have rest: "fst (probabilityGenerator toy_env [9]) \<ge> crossover_probability toy_options
     \<and> [7, 7, 6, 8] ! (2 * 1) = fst (survive toy_populator ([5, 7, 6, 8] ! (2 * 1)) [])"
    by (simp add: toy_env_def toy_options_def toy_populator_def toy_next_def)
  show ?thesis
    using pair_slot_crossover_or_survive [OF run slot] run before rest by blast
qed

section \<open>The kill pass\<close>

lemma demise_all_prefix:
  assumes "permissible_dead_rounds opts \<le> dead" "k \<le> length nextGeneration"
  shows "fold (demise_step env opts P dead threshold) [0..<k] (nextGeneration, w)
     = (case init_population env P k w of (fresh, m, w') \<Rightarrow> (fresh @ drop k nextGeneration, w'))"
  using assms(2)
proof (induction k)
  case 0
  then show ?case by (simp add: init_population_0)
next
  case (Suc k)
  obtain fresh m v where init: "init_population env P k w = (fresh, m, v)"
    by (metis surj_pair)
  obtain c v' where gen: "generate P v = (c, v')"
    by (metis surj_pair)
  have len: "length fresh = k"
    using length_init_population [of env P k w] init by simp
  have ih: "fold (demise_step env opts P dead threshold) [0..<k] (nextGeneration, w)
      = (fresh @ drop k nextGeneration, v)"
    using Suc init by simp
  have upd: "(fresh @ drop k nextGeneration)[k := c] = (fresh @ [c]) @ drop (Suc k) nextGeneration"
    using len Suc.prems by (simp add: list_update_append Cons_nth_drop_Suc [symmetric] del: append_assoc)
  have "fold (demise_step env opts P dead threshold) [0..<Suc k] (nextGeneration, w)
      = demise_step env opts P dead threshold k (fresh @ drop k nextGeneration, v)"
    using ih by simp
  also have "\<dots> = ((fresh @ [c]) @ drop (Suc k) nextGeneration, v')"
    using assms(1) gen upd by (simp add: demise_step_def)
  finally show ?case
    using init gen by (simp add: init_population_Suc init_step_def Let_def)
qed

lemma demise_all:
  assumes "permissible_dead_rounds opts \<le> dead" "length nextGeneration = population_size opts"
  shows "demise env opts P dead threshold nextGeneration w
     = (case init_population env P (population_size opts) w of (fresh, m, w') \<Rightarrow> (fresh, w'))"
  using demise_all_prefix [OF assms(1), of "population_size opts" nextGeneration env P threshold w] assms(2)
  by (simp add: demise_def)

lemma demise_threshold_prefix:
  assumes "\<not> permissible_dead_rounds opts \<le> dead" "k \<le> length nextGeneration"
    and "fold (demise_step env opts P dead threshold) [0..<k] (nextGeneration, w) = (out, w')"
  shows "length out = length nextGeneration
    \<and> (\<forall>i<length nextGeneration.
          if i < k \<and> fitness env (nextGeneration ! i) \<le> threshold
          then \<exists>v. out ! i = fst (generate P v)
          else out ! i = nextGeneration ! i)"
  using assms(2,3)
proof (induction k arbitrary: out w')
  case 0
  then show ?case by simp
next
  case (Suc k)
  obtain mid v where mid: "fold (demise_step env opts P dead threshold) [0..<k] (nextGeneration, w) = (mid, v)"
    by (metis surj_pair)
  have ih: "length mid = length nextGeneration"
    "\<forall>i<length nextGeneration.
          if i < k \<and> fitness env (nextGeneration ! i) \<le> threshold
          then \<exists>v. mid ! i = fst (generate P v)
          else mid ! i = nextGeneration ! i"
    using Suc.IH [OF _ mid] Suc.prems(1) by auto
  have k: "k < length nextGeneration" using Suc.prems(1) by simp
  then have same: "mid ! k = nextGeneration ! k"
    using ih(2) by auto
  have step: "demise_step env opts P dead threshold k (mid, v) = (out, w')"
    using Suc.prems(2) mid by simp
  show ?case
  proof (cases "fitness env (nextGeneration ! k) \<le> threshold")
    case True
    then have out: "out = mid[k := fst (generate P v)]"
      using step same assms(1) by (auto simp: demise_step_def split: prod.splits)
    show ?thesis
      unfolding out using ih k True
      by (auto simp: nth_list_update less_Suc_eq)
  next
    case False
    then have out: "out = mid"
      using step same assms(1) by (auto simp: demise_step_def split: prod.splits)
    show ?thesis
      unfolding out using ih k False
      by (auto simp: less_Suc_eq)
  qed
qed

lemma demise_threshold:
  assumes "\<not> permissible_dead_rounds opts \<le> dead" "length nextGeneration = population_size opts"
    and "demise env opts P dead threshold nextGeneration w = (out, w')"
  shows "length out = length nextGeneration"
    and "\<forall>i<length nextGeneration.
          if fitness env (nextGeneration ! i) \<le> threshold
          then \<exists>v. out ! i = fst (generate P v)
          else out ! i = nextGeneration ! i"
  using demise_threshold_prefix [OF assms(1), of "population_size opts" nextGeneration env P threshold w out w']
    assms(2,3)
  by (simp_all add: demise_def)

section \<open>The body of the generation loop\<close>

lemma update_best_cases:
  assumes "update_best env P nextGeneration b w = (b1, increased, w2)"
  defines "fittest \<equiv> nextGeneration ! max_element (\<lambda>s1 s2. fitness env s1 < fitness env s2) nextGeneration"
  shows "(increased \<and> fitness env b < fitness env fittest \<and> survive P fittest w = (b1, w2))
       \<or> (\<not> increased \<and> fitness env fittest \<le> fitness env b \<and> b1 = b \<and> w2 = w)"
  using assms(1) unfolding fittest_def update_best_def Let_def
  by (auto split: if_splits prod.splits)

lemma update_best_copies:
  assumes "update_best env P nextGeneration b w = (b1, increased, w2)" "survive_copies env P"
  shows "fitness env b \<le> fitness env b1" "increased \<longleftrightarrow> fitness env b < fitness env b1"
    "b1 = b \<or> fitness env b < fitness env b1"
proof -
  let ?fittest = "nextGeneration ! max_element (\<lambda>s1 s2. fitness env s1 < fitness env s2) nextGeneration"
  have copy: "fitness env (fst (survive P ?fittest w)) = fitness env ?fittest"
    using assms(2) by (simp add: survive_copies_def)
  from update_best_cases [OF assms(1)]
  show "fitness env b \<le> fitness env b1" "increased \<longleftrightarrow> fitness env b < fitness env b1"
    "b1 = b \<or> fitness env b < fitness env b1"
    using copy by auto
qed

lemma ga_generation_unfold:
  assumes "breed env opts P (prevGeneration st) [0..<population_size opts div 2] [] (world st)
        = Inr (nextGeneration, w1)"
    and "update_best env P nextGeneration (best st) w1 = (best1, increased, w2)"
    and "demise env opts P (if increased then 0 else deadRounds st + 1)
           (kill_threshold env opts best1) nextGeneration w2 = (nextGeneration2, w3)"
    and "shuffle env nextGeneration2 w3 = (prev', w4)"
  defines "dead \<equiv> (if increased then 0 else deadRounds st + 1)"
  shows "ga_generation env opts P generation st =
     (if nextGeneration = [] then Inl (OutOfRange, w1)
      else if fitness_success_threshold opts \<le> fitness env best1
      then Inr (Returned (st\<lparr>best := best1, world := w2,
                              cerr := cerr st @ [SolvedAtGeneration generation]\<rparr>))
      else if output_rounds opts = 0 then Inl (DivisionByZero, w3)
      else Inr (Continue
        \<lparr>prevGeneration = prev', best = best1,
         deadRounds = (if permissible_dead_rounds opts \<le> dead then 0 else dead),
         world = w4,
         cerr = cerr st
           @ (if permissible_dead_rounds opts \<le> dead then [KilledEverything] else [])
           @ (if generation mod output_rounds opts = 0
              then [Generation generation (fitness env best1)
                      (if permissible_dead_rounds opts \<le> dead then 0 else dead)] else [])\<rparr>))"
  unfolding ga_generation_def dead_def
  by (simp only: assms(1-4) sum.case prod.case Let_def) simp

lemma ga_generation_Inr:
  assumes "ga_generation env opts P generation st = Inr f"
  obtains nextGeneration w1 best1 increased w2 nextGeneration2 w3 prev' w4 where
    "breed env opts P (prevGeneration st) [0..<population_size opts div 2] [] (world st)
        = Inr (nextGeneration, w1)"
    "update_best env P nextGeneration (best st) w1 = (best1, increased, w2)"
    "demise env opts P (if increased then 0 else deadRounds st + 1)
           (kill_threshold env opts best1) nextGeneration w2 = (nextGeneration2, w3)"
    "shuffle env nextGeneration2 w3 = (prev', w4)"
proof (cases "breed env opts P (prevGeneration st) [0..<population_size opts div 2] [] (world st)")
  case (Inl e)
  then show ?thesis using assms by (simp add: ga_generation_def)
next
  case (Inr r)
  obtain nextGeneration w1 where r: "r = (nextGeneration, w1)" by (cases r)
  obtain best1 increased w2 where u: "update_best env P nextGeneration (best st) w1 = (best1, increased, w2)"
    by (metis surj_pair)
  obtain nextGeneration2 w3 where d: "demise env opts P (if increased then 0 else deadRounds st + 1)
           (kill_threshold env opts best1) nextGeneration w2 = (nextGeneration2, w3)"
    by (metis surj_pair)
  obtain prev' w4 where s: "shuffle env nextGeneration2 w3 = (prev', w4)"
    by (metis surj_pair)
  show ?thesis
    using that Inr r u d s by blast
qed

lemma ga_generation_Returned:
  assumes "ga_generation env opts P generation st = Inr (Returned st')"
  shows "\<exists>nextGeneration w1 increased.
      breed env opts P (prevGeneration st) [0..<population_size opts div 2] [] (world st)
        = Inr (nextGeneration, w1)
      \<and> nextGeneration \<noteq> []
      \<and> update_best env P nextGeneration (best st) w1 = (best st', increased, world st')
      \<and> fitness_success_threshold opts \<le> fitness env (best st')
      \<and> prevGeneration st' = prevGeneration st \<and> deadRounds st' = deadRounds st
      \<and> cerr st' = cerr st @ [SolvedAtGeneration generation]"
proof -
  from ga_generation_Inr [OF assms] obtain nextGeneration w1 best1 increased w2 nextGeneration2 w3 prev' w4
    where parts:
    "breed env opts P (prevGeneration st) [0..<population_size opts div 2] [] (world st)
        = Inr (nextGeneration, w1)"
    "update_best env P nextGeneration (best st) w1 = (best1, increased, w2)"
    "demise env opts P (if increased then 0 else deadRounds st + 1)
           (kill_threshold env opts best1) nextGeneration w2 = (nextGeneration2, w3)"
    "shuffle env nextGeneration2 w3 = (prev', w4)"
    by blast
  have st': "nextGeneration \<noteq> [] \<and> fitness_success_threshold opts \<le> fitness env best1
      \<and> st' = st\<lparr>best := best1, world := w2, cerr := cerr st @ [SolvedAtGeneration generation]\<rparr>"
    using assms unfolding ga_generation_unfold [OF parts]
    by (simp split: if_splits)
  show ?thesis
    using parts(1,2) st' by auto
qed

lemma ga_generation_Continue:
  assumes "ga_generation env opts P generation st = Inr (Continue st')"
  shows "\<exists>nextGeneration w1 increased w2 dead nextGeneration2 w3.
      breed env opts P (prevGeneration st) [0..<population_size opts div 2] [] (world st)
        = Inr (nextGeneration, w1)
      \<and> nextGeneration \<noteq> []
      \<and> update_best env P nextGeneration (best st) w1 = (best st', increased, w2)
      \<and> fitness env (best st') < fitness_success_threshold opts
      \<and> dead = (if increased then 0 else deadRounds st + 1)
      \<and> demise env opts P dead (kill_threshold env opts (best st')) nextGeneration w2
           = (nextGeneration2, w3)
      \<and> output_rounds opts \<noteq> 0
      \<and> deadRounds st' = (if permissible_dead_rounds opts \<le> dead then 0 else dead)
      \<and> shuffle env nextGeneration2 w3 = (prevGeneration st', world st')
      \<and> cerr st' = cerr st
           @ (if permissible_dead_rounds opts \<le> dead then [KilledEverything] else [])
           @ (if generation mod output_rounds opts = 0
              then [Generation generation (fitness env (best st')) (deadRounds st')] else [])"
proof -
  from ga_generation_Inr [OF assms] obtain nextGeneration w1 best1 increased w2 nextGeneration2 w3 prev' w4
    where parts:
    "breed env opts P (prevGeneration st) [0..<population_size opts div 2] [] (world st)
        = Inr (nextGeneration, w1)"
    "update_best env P nextGeneration (best st) w1 = (best1, increased, w2)"
    "demise env opts P (if increased then 0 else deadRounds st + 1)
           (kill_threshold env opts best1) nextGeneration w2 = (nextGeneration2, w3)"
    "shuffle env nextGeneration2 w3 = (prev', w4)"
    by blast
  define dead where "dead = (if increased then 0 else deadRounds st + 1)"
  have st': "nextGeneration \<noteq> [] \<and> fitness env best1 < fitness_success_threshold opts
      \<and> output_rounds opts \<noteq> 0
      \<and> st' = \<lparr>prevGeneration = prev', best = best1,
         deadRounds = (if permissible_dead_rounds opts \<le> dead then 0 else dead),
         world = w4,
         cerr = cerr st
           @ (if permissible_dead_rounds opts \<le> dead then [KilledEverything] else [])
           @ (if generation mod output_rounds opts = 0
              then [Generation generation (fitness env best1)
                      (if permissible_dead_rounds opts \<le> dead then 0 else dead)] else [])\<rparr>"
    using assms unfolding ga_generation_unfold [OF parts] dead_def
    by (simp split: if_splits)
  show ?thesis
    apply (rule exI [of _ nextGeneration], rule exI [of _ w1], rule exI [of _ increased],
        rule exI [of _ w2], rule exI [of _ dead], rule exI [of _ nextGeneration2], rule exI [of _ w3])
    using parts st' by (simp add: dead_def)
qed

section \<open>The fittest candidate of a generation\<close>

lemma update_best_first_maximum:
  assumes "nextGeneration \<noteq> []" "update_best env P nextGeneration b w = (b1, increased, w2)"
  shows "\<exists>k<length nextGeneration.
      (\<forall>j<length nextGeneration. fitness env (nextGeneration ! j) \<le> fitness env (nextGeneration ! k))
    \<and> (\<forall>j<k. fitness env (nextGeneration ! j) < fitness env (nextGeneration ! k))
    \<and> (b1, increased, w2)
        = (if fitness env b < fitness env (nextGeneration ! k)
           then (fst (survive P (nextGeneration ! k) w), True, snd (survive P (nextGeneration ! k) w))
           else (b, False, w))"
proof -
  define k where "k = max_element (\<lambda>s1 s2. fitness env s1 < fitness env s2) nextGeneration"
  note first = max_element_first_maximum [OF assms(1), of "fitness env", folded k_def]
  have "(b1, increased, w2)
        = (if fitness env b < fitness env (nextGeneration ! k)
           then (fst (survive P (nextGeneration ! k) w), True, snd (survive P (nextGeneration ! k) w))
           else (b, False, w))"
    using assms(2) by (auto simp: update_best_def k_def Let_def split: prod.splits)
  then show ?thesis
    using first by blast
qed

lemma ga_generation_first_maximum:
  assumes "ga_generation env opts P generation st = Inr f"
  shows "\<exists>nextGeneration w1 k.
      breed env opts P (prevGeneration st) [0..<population_size opts div 2] [] (world st)
        = Inr (nextGeneration, w1)
    \<and> k < length nextGeneration
    \<and> (\<forall>j<length nextGeneration. fitness env (nextGeneration ! j) \<le> fitness env (nextGeneration ! k))
    \<and> (\<forall>j<k. fitness env (nextGeneration ! j) < fitness env (nextGeneration ! k))
    \<and> best (flow_state f)
        = (if fitness env (best st) < fitness env (nextGeneration ! k)
           then fst (survive P (nextGeneration ! k) w1) else best st)"
proof -
  have "\<exists>nextGeneration w1 increased w2. nextGeneration \<noteq> []
      \<and> breed env opts P (prevGeneration st) [0..<population_size opts div 2] [] (world st)
        = Inr (nextGeneration, w1)
      \<and> update_best env P nextGeneration (best st) w1 = (best (flow_state f), increased, w2)"
  proof (cases f)
    case (Returned st')
    from ga_generation_Returned [OF assms [unfolded Returned]] show ?thesis
      using Returned by auto
  next
    case (Continue st')
    from ga_generation_Continue [OF assms [unfolded Continue]] show ?thesis
      using Continue by auto
  qed
  then obtain nextGeneration w1 increased w2 where
    ne: "nextGeneration \<noteq> []"
    and breed: "breed env opts P (prevGeneration st) [0..<population_size opts div 2] [] (world st)
        = Inr (nextGeneration, w1)"
    and upd: "update_best env P nextGeneration (best st) w1 = (best (flow_state f), increased, w2)"
    by blast
  from update_best_first_maximum [OF ne upd] obtain k where
    "k < length nextGeneration"
    "\<forall>j<length nextGeneration. fitness env (nextGeneration ! j) \<le> fitness env (nextGeneration ! k)"
    "\<forall>j<k. fitness env (nextGeneration ! j) < fitness env (nextGeneration ! k)"
    "best (flow_state f) = (if fitness env (best st) < fitness env (nextGeneration ! k)
           then fst (survive P (nextGeneration ! k) w1) else best st)"
    by (auto split: if_splits)
  with breed show ?thesis
    by blast
qed

lemma ga_init_first_maximum:
  assumes "ga_init env opts P w = Inr st"
  shows "\<exists>prev max_init w1.
      init_population env P (population_size opts) w = (prev, max_init, w1)
    \<and> max_init < length prev
    \<and> (\<forall>j<length prev. fitness env (prev ! j) \<le> fitness env (prev ! max_init))
    \<and> (\<forall>j<max_init. fitness env (prev ! j) < fitness env (prev ! max_init))
    \<and> prevGeneration st = prev
    \<and> best st = fst (survive P (prev ! max_init) w1)"
proof -
  obtain prev k w1 where init: "init_population env P (population_size opts) w = (prev, k, w1)"
    by (metis surj_pair)
  have k: "k < length prev"
    using assms init by (auto simp: ga_init_def split: if_splits)
  have len: "length prev = population_size opts"
    using length_init_population [of env P "population_size opts" w] init by simp
  then have "0 < population_size opts" using k by simp
  note mx = init_population_max [OF init this]
  have "prevGeneration st = prev \<and> best st = fst (survive P (prev ! k) w1)"
    using assms init k by (auto simp: ga_init_def split: prod.splits)
  then show ?thesis
    using init k mx len by auto
qed

text \<open>
  C6. The candidate the genetic engine takes as the fittest of a new generation
  (line 138) stands at an index \<open>k\<close> of that generation such that no candidate of
  the generation is fitter and every candidate before \<open>k\<close> is strictly less fit: a
  candidate of maximal fitness, the one at the lowest index among equally fit ones.
  It is this candidate that is compared with \<^verbatim>\<open>best\<close> and, when strictly fitter,
  copied into it, in every pass of the generation loop; \<^verbatim>\<open>std::max_element\<close> with
  the comparison of line 139 gives this index. The index \<^verbatim>\<open>max_init\<close> of the initial
  population (lines 97-104) has the same two properties, and \<^verbatim>\<open>best\<close> starts as the
  copy of the candidate at that index (line 107).
\<close>

theorem fittest_is_first_maximum:
  "(ga_generation env opts P generation st = Inr f \<longrightarrow>
      (\<exists>nextGeneration w1 k.
          breed env opts P (prevGeneration st) [0..<population_size opts div 2] [] (world st)
            = Inr (nextGeneration, w1)
        \<and> k < length nextGeneration
        \<and> (\<forall>j<length nextGeneration. fitness env (nextGeneration ! j) \<le> fitness env (nextGeneration ! k))
        \<and> (\<forall>j<k. fitness env (nextGeneration ! j) < fitness env (nextGeneration ! k))
        \<and> best (flow_state f)
            = (if fitness env (best st) < fitness env (nextGeneration ! k)
               then fst (survive P (nextGeneration ! k) w1) else best st)))
   \<and> (generation' \<noteq> [] \<and> update_best env P generation' b v = (bnew, increased, v') \<longrightarrow>
      (\<exists>k<length generation'.
          (\<forall>j<length generation'. fitness env (generation' ! j) \<le> fitness env (generation' ! k))
        \<and> (\<forall>j<k. fitness env (generation' ! j) < fitness env (generation' ! k))
        \<and> (bnew, increased, v')
            = (if fitness env b < fitness env (generation' ! k)
               then (fst (survive P (generation' ! k) v), True, snd (survive P (generation' ! k) v))
               else (b, False, v))))
   \<and> (xs \<noteq> [] \<and> m = max_element (\<lambda>s1 s2. fitness env s1 < fitness env s2) xs \<longrightarrow>
      m < length xs
      \<and> (\<forall>j<length xs. fitness env (xs ! j) \<le> fitness env (xs ! m))
      \<and> (\<forall>j<m. fitness env (xs ! j) < fitness env (xs ! m)))
   \<and> (0 < n \<and> init_population env P n w = (prev, max_init, w') \<longrightarrow>
      length prev = n \<and> max_init < n
      \<and> (\<forall>j<n. fitness env (prev ! j) \<le> fitness env (prev ! max_init))
      \<and> (\<forall>j<max_init. fitness env (prev ! j) < fitness env (prev ! max_init)))
   \<and> (ga_init env opts P u = Inr sinit \<longrightarrow>
      (\<exists>population max_init w1.
          init_population env P (population_size opts) u = (population, max_init, w1)
        \<and> max_init < length population
        \<and> (\<forall>j<length population. fitness env (population ! j) \<le> fitness env (population ! max_init))
        \<and> (\<forall>j<max_init. fitness env (population ! j) < fitness env (population ! max_init))
        \<and> prevGeneration sinit = population
        \<and> best sinit = fst (survive P (population ! max_init) w1)))"
proof (intro conjI impI)
  assume "ga_generation env opts P generation st = Inr f"
  then show "\<exists>nextGeneration w1 k.
          breed env opts P (prevGeneration st) [0..<population_size opts div 2] [] (world st)
            = Inr (nextGeneration, w1)
        \<and> k < length nextGeneration
        \<and> (\<forall>j<length nextGeneration. fitness env (nextGeneration ! j) \<le> fitness env (nextGeneration ! k))
        \<and> (\<forall>j<k. fitness env (nextGeneration ! j) < fitness env (nextGeneration ! k))
        \<and> best (flow_state f)
            = (if fitness env (best st) < fitness env (nextGeneration ! k)
               then fst (survive P (nextGeneration ! k) w1) else best st)"
    by (rule ga_generation_first_maximum)
next
  assume a: "generation' \<noteq> [] \<and> update_best env P generation' b v = (bnew, increased, v')"
  show "\<exists>k<length generation'.
          (\<forall>j<length generation'. fitness env (generation' ! j) \<le> fitness env (generation' ! k))
        \<and> (\<forall>j<k. fitness env (generation' ! j) < fitness env (generation' ! k))
        \<and> (bnew, increased, v')
            = (if fitness env b < fitness env (generation' ! k)
               then (fst (survive P (generation' ! k) v), True, snd (survive P (generation' ! k) v))
               else (b, False, v))"
    by (rule update_best_first_maximum [OF conjunct1 [OF a] conjunct2 [OF a]])
next
  assume a: "xs \<noteq> [] \<and> m = max_element (\<lambda>s1 s2. fitness env s1 < fitness env s2) xs"
  show "m < length xs"
    using a max_element_first_maximum(1) [of xs "fitness env"] by simp
  show "\<forall>j<length xs. fitness env (xs ! j) \<le> fitness env (xs ! m)"
    using a max_element_first_maximum(2) [of xs "fitness env"] by simp
  show "\<forall>j<m. fitness env (xs ! j) < fitness env (xs ! m)"
    using a max_element_first_maximum(3) [of xs "fitness env"] by simp
next
  assume b: "0 < n \<and> init_population env P n w = (prev, max_init, w')"
  show "length prev = n"
    using b length_init_population [of env P n w] by simp
  show "max_init < n"
    "\<forall>j<n. fitness env (prev ! j) \<le> fitness env (prev ! max_init)"
    "\<forall>j<max_init. fitness env (prev ! j) < fitness env (prev ! max_init)"
    using b init_population_max [of env P n w prev max_init w'] by simp_all
next
  assume "ga_init env opts P u = Inr sinit"
  then show "\<exists>population max_init w1.
          init_population env P (population_size opts) u = (population, max_init, w1)
        \<and> max_init < length population
        \<and> (\<forall>j<length population. fitness env (population ! j) \<le> fitness env (population ! max_init))
        \<and> (\<forall>j<max_init. fitness env (population ! j) < fitness env (population ! max_init))
        \<and> prevGeneration sinit = population
        \<and> best sinit = fst (survive P (population ! max_init) w1)"
    by (rule ga_init_first_maximum)
qed

theorem fittest_is_first_maximum_witness:
  "ga_generation tie_env (toy_options\<lparr>population_size := 4\<rparr>) toy_populator 0 tie_state
     = Inr (Continue \<lparr>prevGeneration = [20, 32, 31, 10], best = 31, deadRounds = 0, world = [],
                      cerr = [Generation 0 3 0]\<rparr>)
   \<and> breed tie_env (toy_options\<lparr>population_size := 4\<rparr>) toy_populator [10, 31, 32, 20] [0..<2] []
        [9, 9] = Inr ([10, 31, 32, 20], [])
   \<and> fitness tie_env 31 = fitness tie_env 32
   \<and> update_best tie_env toy_populator [10, 31, 32, 20] 20 [] = (31, True, [])
   \<and> max_element (\<lambda>s1 s2. fitness tie_env s1 < fitness tie_env s2) [10, 31, 32, 20] = 1
   \<and> init_population tie_env toy_populator 4 [10, 31, 32, 20, 9, 9] = ([10, 31, 32, 20], 1, [9, 9])
   \<and> ga_init tie_env (toy_options\<lparr>population_size := 4\<rparr>) toy_populator [10, 31, 32, 20, 9, 9]
     = Inr (tie_state\<lparr>best := 31\<rparr>)"
proof -
  let ?opts = "toy_options\<lparr>population_size := 4\<rparr>"
  have pass: "ga_generation tie_env ?opts toy_populator 0 tie_state
     = Inr (Continue \<lparr>prevGeneration = [20, 32, 31, 10], best = 31, deadRounds = 0, world = [],
                      cerr = [Generation 0 3 0]\<rparr>)"
    by (simp add: ga_generation_def breed_pair_def maybe_mutate_def update_best_def max_element_def
        demise_def demise_step_def kill_threshold_def tie_env_def tie_state_def toy_env_def
        toy_options_def toy_populator_def toy_next_def upt_rec word_order.extremum_unique)
  have bred: "breed tie_env ?opts toy_populator [10, 31, 32, 20] [0..<2] [] [9, 9]
      = Inr ([10, 31, 32, 20], [])"
    by (simp add: breed_pair_def tie_env_def toy_env_def toy_options_def toy_populator_def
        toy_next_def upt_rec)
  have tie: "fitness tie_env 31 = fitness tie_env 32"
    by (simp add: tie_env_def)
  have upd: "update_best tie_env toy_populator [10, 31, 32, 20] 20 [] = (31, True, [])"
    by (simp add: update_best_def max_element_def tie_env_def toy_populator_def upt_rec)
  have mx: "max_element (\<lambda>s1 s2. fitness tie_env s1 < fitness tie_env s2) [10, 31, 32, 20] = 1"
    by (simp add: max_element_def tie_env_def upt_rec)
  have init: "init_population tie_env toy_populator 4 [10, 31, 32, 20, 9, 9]
      = ([10, 31, 32, 20], 1, [9, 9])"
    by (simp add: init_population_def init_step_def tie_env_def toy_populator_def toy_next_def upt_rec)
  have start: "ga_init tie_env ?opts toy_populator [10, 31, 32, 20, 9, 9]
      = Inr (tie_state\<lparr>best := 31\<rparr>)"
    by (simp add: ga_init_def init_population_def init_step_def tie_env_def tie_state_def
        toy_options_def toy_populator_def toy_next_def upt_rec)
  have ne: "[10, 31, 32, 20] \<noteq> ([] :: nat list)" "(0::nat) < 4"
    by simp_all
  show ?thesis
    using fittest_is_first_maximum
      [where env = tie_env and opts = ?opts and P = toy_populator and generation = 0
         and st = tie_state
         and f = "Continue \<lparr>prevGeneration = [20, 32, 31, 10], best = 31, deadRounds = 0,
                     world = [], cerr = [Generation 0 3 0]\<rparr>"
         and generation' = "[10, 31, 32, 20]" and b = 20 and v = "[]" and bnew = 31
         and increased = True and v' = "[]"
         and xs = "[10, 31, 32, 20]" and m = 1
         and n = 4 and w = "[10, 31, 32, 20, 9, 9]" and prev = "[10, 31, 32, 20]"
         and max_init = 1 and w' = "[9, 9]"
         and u = "[10, 31, 32, 20, 9, 9]" and sinit = "tie_state\<lparr>best := 31\<rparr>"]
      pass bred tie upd mx init start ne
    by simp
qed

section \<open>The running best candidate\<close>

lemma ga_generation_replaces:
  assumes "ga_generation env opts P generation st = Inr f"
  shows "best (flow_state f) = best st
    \<or> (\<exists>nextGeneration w1. nextGeneration \<noteq> []
          \<and> breed env opts P (prevGeneration st) [0..<population_size opts div 2] [] (world st)
                = Inr (nextGeneration, w1)
          \<and> fitness env (best st)
                < fitness env (nextGeneration
                     ! max_element (\<lambda>s1 s2. fitness env s1 < fitness env s2) nextGeneration)
          \<and> best (flow_state f)
                = fst (survive P (nextGeneration
                     ! max_element (\<lambda>s1 s2. fitness env s1 < fitness env s2) nextGeneration) w1))"
proof (cases f)
  case (Returned st')
  from ga_generation_Returned [OF assms [unfolded Returned]]
  obtain nextGeneration w1 increased where
    "breed env opts P (prevGeneration st) [0..<population_size opts div 2] [] (world st)
        = Inr (nextGeneration, w1)" "nextGeneration \<noteq> []"
    "update_best env P nextGeneration (best st) w1 = (best st', increased, world st')"
    by blast
  then show ?thesis
    using update_best_cases [of env P nextGeneration "best st" w1 "best st'" increased "world st'"] Returned
    by auto
next
  case (Continue st')
  from ga_generation_Continue [OF assms [unfolded Continue]]
  obtain nextGeneration w1 increased w2 where
    "breed env opts P (prevGeneration st) [0..<population_size opts div 2] [] (world st)
        = Inr (nextGeneration, w1)" "nextGeneration \<noteq> []"
    "update_best env P nextGeneration (best st) w1 = (best st', increased, w2)"
    by blast
  then show ?thesis
    using update_best_cases [of env P nextGeneration "best st" w1 "best st'" increased w2] Continue
    by auto
qed

lemma ga_generation_best:
  assumes "ga_generation env opts P generation st = Inr f" "survive_copies env P"
  shows "fitness env (best st) \<le> fitness env (best (flow_state f))"
    and "best (flow_state f) = best st \<or> fitness env (best st) < fitness env (best (flow_state f))"
proof -
  have "fitness env (best st) \<le> fitness env (best (flow_state f))
      \<and> (best (flow_state f) = best st \<or> fitness env (best st) < fitness env (best (flow_state f)))"
  proof (cases f)
    case (Returned st')
    from ga_generation_Returned [OF assms(1) [unfolded Returned]]
    obtain nextGeneration w1 increased where
      "update_best env P nextGeneration (best st) w1 = (best st', increased, world st')"
      by blast
    from update_best_copies(1,3) [OF this assms(2)] show ?thesis
      using Returned by simp
  next
    case (Continue st')
    from ga_generation_Continue [OF assms(1) [unfolded Continue]]
    obtain nextGeneration w1 increased w2 where
      "update_best env P nextGeneration (best st) w1 = (best st', increased, w2)"
      by blast
    from update_best_copies(1,3) [OF this assms(2)] show ?thesis
      using Continue by simp
  qed
  then show "fitness env (best st) \<le> fitness env (best (flow_state f))"
    and "best (flow_state f) = best st \<or> fitness env (best st) < fitness env (best (flow_state f))"
    by simp_all
qed

lemma ga_generations_best:
  assumes "ga_generations env opts P k generation st = Inr f" "survive_copies env P"
  shows "fitness env (best st) \<le> fitness env (best (flow_state f))"
  using assms(1)
proof (induction k arbitrary: generation st)
  case 0
  then show ?case by auto
next
  case (Suc k)
  show ?case
  proof (cases "ga_generation env opts P generation st")
    case (Inl e)
    then show ?thesis using Suc.prems by simp
  next
    case (Inr g)
    note step = ga_generation_best(1) [OF Inr assms(2)]
    show ?thesis
    proof (cases g)
      case (Returned st')
      then show ?thesis using Suc.prems Inr step by auto
    next
      case (Continue st')
      then have "ga_generations env opts P k (generation + 1) st' = Inr f"
        using Suc.prems Inr by simp
      from Suc.IH [OF this] show ?thesis
        using step Continue by simp
    qed
  qed
qed

lemma ga_generations_add:
  "ga_generations env opts P (j + k) generation st =
     (case ga_generations env opts P j generation st of
        Inr (Continue st') \<Rightarrow> ga_generations env opts P k (generation + of_nat j) st'
      | r \<Rightarrow> r)"
proof (induction j arbitrary: generation st)
  case 0
  then show ?case by simp
next
  case (Suc j)
  show ?case
  proof (cases "ga_generation env opts P generation st")
    case (Inl e)
    then show ?thesis by simp
  next
    case (Inr g)
    have shift: "generation + 1 + of_nat j = generation + of_nat (Suc j)"
      by simp
    show ?thesis
      using Inr Suc.IH [of "generation + 1"] unfolding shift by (cases g) simp_all
  qed
qed

lemma ga_generations_sequence:
  assumes "survive_copies env P" "j \<le> n"
    and "ga_generations env opts P j generation st = Inr (Continue sj)"
    and "ga_generations env opts P n generation st = Inr f"
  shows "fitness env (best sj) \<le> fitness env (best (flow_state f))"
proof -
  obtain k where n: "n = j + k"
    using assms(2) by (metis le_Suc_ex)
  have "ga_generations env opts P k (generation + of_nat j) sj = Inr f"
    using assms(4) unfolding n ga_generations_add assms(3) by simp
  then show ?thesis
    by (rule ga_generations_best) (rule assms(1))
qed

lemma best_values_append: "best_values (xs @ ys) = best_values xs @ best_values ys"
  by (induction xs rule: best_values.induct) simp_all

lemma increasing_last:
  fixes y :: "'f::linorder"
  shows "sorted_wrt (<) xs \<Longrightarrow> y \<in> set xs \<Longrightarrow> y \<le> last xs"
  by (induction xs) (auto simp: less_imp_le)

lemma increasing_snoc:
  fixes x :: "'f::linorder"
  assumes "sorted_wrt (<) xs" "xs = [] \<or> last xs < x"
  shows "sorted_wrt (<) (xs @ [x])"
proof (cases "xs = []")
  case True
  then show ?thesis by simp
next
  case False
  have "y < x" if "y \<in> set xs" for y
    using increasing_last [OF assms(1) that] assms(2) False by simp
  then show ?thesis using assms(1) by (simp add: sorted_wrt_append)
qed

lemma hc_iteration_unfold:
  assumes "generateNeighbour P (cur st) (hc_world st) = (nxt, w1)"
    and "accept alg nxt (cur st) opts (state st) w1 = (accepted, s', w2)"
  shows "hc_iteration alg opts P st =
       (let c = (if accepted then nxt else cur st) in
        if hc_fitness alg c \<ge> hc_fitness_success_threshold opts
        then Returned (st\<lparr>cur := c, state := s', hc_world := w2\<rparr>)
        else if (case hc_best st of None \<Rightarrow> True
                 | Some b \<Rightarrow> hc_fitness alg b < hc_fitness alg c)
        then Continue (st\<lparr>cur := c, state := s', hc_best := Some c, hc_world := w2,
                           hc_cerr := hc_cerr st @ [Best (hc_fitness alg c)]\<rparr>)
        else Continue (st\<lparr>cur := c, state := s', hc_world := w2\<rparr>))"
  by (simp add: hc_iteration_def assms)

lemma hc_iteration_best:
  assumes "hc_iteration alg opts P st = f"
  shows "(hc_best (flow_state f) = hc_best st \<and> hc_cerr (flow_state f) = hc_cerr st)
    \<or> (hc_best (flow_state f) = Some (cur (flow_state f))
        \<and> hc_cerr (flow_state f) = hc_cerr st @ [Best (hc_fitness alg (cur (flow_state f)))]
        \<and> (case hc_best st of None \<Rightarrow> True
            | Some b \<Rightarrow> hc_fitness alg b < hc_fitness alg (cur (flow_state f))))"
proof -
  obtain nxt w1 where n: "generateNeighbour P (cur st) (hc_world st) = (nxt, w1)"
    by (metis surj_pair)
  obtain accepted s' w2 where a: "accept alg nxt (cur st) opts (state st) w1 = (accepted, s', w2)"
    by (metis surj_pair)
  show ?thesis
    using assms unfolding hc_iteration_unfold [OF n a] Let_def
    by (auto split: if_splits option.splits)
qed

lemma hc_iteration_recorded:
  assumes "hc_iteration alg opts P st = f" "recorded_best (hc_fitness alg) (hc_best st) (hc_cerr st)"
  shows "recorded_best (hc_fitness alg) (hc_best (flow_state f)) (hc_cerr (flow_state f))"
  using hc_iteration_best [OF assms(1)]
proof
  assume "hc_best (flow_state f) = hc_best st \<and> hc_cerr (flow_state f) = hc_cerr st"
  then show ?thesis using assms(2) by simp
next
  assume new: "hc_best (flow_state f) = Some (cur (flow_state f))
        \<and> hc_cerr (flow_state f) = hc_cerr st @ [Best (hc_fitness alg (cur (flow_state f)))]
        \<and> (case hc_best st of None \<Rightarrow> True
            | Some b \<Rightarrow> hc_fitness alg b < hc_fitness alg (cur (flow_state f)))"
  have old: "sorted_wrt (<) (best_values (hc_cerr st))"
    using assms(2) by (simp add: recorded_best_def)
  have above: "best_values (hc_cerr st) = []
      \<or> last (best_values (hc_cerr st)) < hc_fitness alg (cur (flow_state f))"
    using assms(2) new by (cases "hc_best st") (auto simp: recorded_best_def)
  show ?thesis
    using new increasing_snoc [OF old above]
    by (simp add: recorded_best_def best_values_append)
qed

lemma hc_iterations_recorded:
  assumes "hc_iterations alg opts P n st = f" "recorded_best (hc_fitness alg) (hc_best st) (hc_cerr st)"
  shows "recorded_best (hc_fitness alg) (hc_best (flow_state f)) (hc_cerr (flow_state f))"
  using assms
proof (induction n arbitrary: st)
  case 0
  then show ?case by auto
next
  case (Suc n)
  show ?case
  proof (cases "hc_iteration alg opts P st")
    case (Returned st')
    then show ?thesis
      using Suc.prems hc_iteration_recorded [OF Returned Suc.prems(2)] by auto
  next
    case (Continue st')
    then show ?thesis
      using Suc.prems Suc.IH [of st'] hc_iteration_recorded [OF Continue Suc.prems(2)] by auto
  qed
qed

lemma hc_rounds_recorded:
  assumes "recorded_best (hc_fitness alg) b out"
  shows "case hc_rounds alg opts P n (b, w, out) of
           Returned st \<Rightarrow> recorded_best (hc_fitness alg) (hc_best st) (hc_cerr st)
         | Continue (b', w', out') \<Rightarrow> recorded_best (hc_fitness alg) b' out'"
  using assms
proof (induction n arbitrary: b w out)
  case 0
  then show ?case by simp
next
  case (Suc n)
  obtain c w1 where g: "hc_generate P w = (c, w1)"
    by (metis surj_pair)
  define st0 :: "('a, 'c, 'b, 'd) hc_state" where
    "st0 = \<lparr>cur = c, state = initState alg opts, hc_best = b, hc_world = w1, hc_cerr = out\<rparr>"
  have start: "recorded_best (hc_fitness alg) (hc_best st0) (hc_cerr st0)"
    using Suc.prems by (simp add: st0_def)
  show ?case
  proof (cases "hc_iterations alg opts P (max_iterations_per_round opts) st0")
    case (Returned st')
    then show ?thesis
      using g hc_iterations_recorded [OF Returned start] by (simp add: st0_def)
  next
    case (Continue st')
    then show ?thesis
      using g hc_iterations_recorded [OF Continue start] Suc.IH [of "hc_best st'" "hc_cerr st'" "hc_world st'"]
      by (simp add: st0_def)
  qed
qed

lemmas toy_defs = toy_env_def toy_options_def toy_populator_def toy_next_def toy_state_def

lemma toy_generation_0:
  "ga_generation toy_env toy_options toy_populator 0 toy_state
     = Inr (Continue \<lparr>prevGeneration = [7, 8], best = 8, deadRounds = 0, world = [9],
                      cerr = [Generation 0 8 0]\<rparr>)"
  by (simp add: ga_generation_def breed_pair_def maybe_mutate_def update_best_def max_element_def
      demise_def demise_step_def kill_threshold_def toy_defs upt_rec
      word_order.extremum_unique)

lemma toy_generation_1:
  "ga_generation toy_env toy_options toy_populator 1
       \<lparr>prevGeneration = [7, 8], best = 8, deadRounds = 0, world = [9], cerr = [Generation 0 8 0]\<rparr>
     = Inr (Continue \<lparr>prevGeneration = [8, 7], best = 8, deadRounds = 1, world = [],
                      cerr = [Generation 0 8 0]\<rparr>)"
  by (simp add: ga_generation_def breed_pair_def maybe_mutate_def update_best_def max_element_def
      demise_def demise_step_def kill_threshold_def toy_defs upt_rec
      word_order.extremum_unique)

lemma hc_run_recorded:
  assumes "hc_run alg hopts w = Inr (r, w', out)"
  shows "sorted_wrt (<) (best_values out)"
proof -
  obtain HP where HP: "hc_populator hopts = Some HP"
    using assms by (cases "hc_populator hopts") (auto simp: hc_run_def)
  have start: "recorded_best (hc_fitness alg) None []"
    by (simp add: recorded_best_def)
  show ?thesis
  proof (cases "hc_rounds alg hopts HP (max_rounds hopts) (None, w, [])")
    case (Returned st)
    then show ?thesis
      using assms HP hc_rounds_recorded [OF start, where opts = hopts and P = HP and n = "max_rounds hopts" and w = w]
      by (auto simp: hc_run_def recorded_best_def)
  next
    case (Continue v)
    then show ?thesis
      using assms HP hc_rounds_recorded [OF start, where opts = hopts and P = HP and n = "max_rounds hopts" and w = w]
      by (cases v) (auto simp: hc_run_def recorded_best_def)
  qed
qed

text \<open>
  C1. The fitness of the running best candidate never decreases. In the genetic
  engine a pass of the generation loop leaves \<^verbatim>\<open>best\<close> as it was, or the fittest
  candidate of the new generation is strictly fitter than \<^verbatim>\<open>best\<close> and \<^verbatim>\<open>best\<close>
  becomes its \<^verbatim>\<open>survive\<close> copy; so, \<^verbatim>\<open>survive\<close> returning a copy, the best fitness
  after \<open>j\<close> passes is at most the best fitness after \<open>n \<ge> j\<close> passes. In the
  hill-climbing engine an iteration leaves \<^verbatim>\<open>best\<close> as it was or sets it to the
  current candidate, and then \<^verbatim>\<open>best\<close> was not set or was strictly less fit; the best
  fitness values a run reports are strictly increasing.
\<close>

theorem best_fitness_never_decreases:
  "(ga_generation env opts P generation st = Inr f \<longrightarrow>
      best (flow_state f) = best st
      \<or> (\<exists>nextGeneration w1. nextGeneration \<noteq> []
            \<and> breed env opts P (prevGeneration st) [0..<population_size opts div 2] [] (world st)
                  = Inr (nextGeneration, w1)
            \<and> fitness env (best st)
                  < fitness env (nextGeneration
                       ! max_element (\<lambda>s1 s2. fitness env s1 < fitness env s2) nextGeneration)
            \<and> best (flow_state f)
                  = fst (survive P (nextGeneration
                       ! max_element (\<lambda>s1 s2. fitness env s1 < fitness env s2) nextGeneration) w1)))
   \<and> (survive_copies env P \<and> j \<le> n
       \<and> ga_generations env opts P j generation st = Inr (Continue sj)
       \<and> ga_generations env opts P n generation st = Inr f' \<longrightarrow>
      fitness env (best sj) \<le> fitness env (best (flow_state f')))
   \<and> (hc_iteration alg hopts HP hst = hf \<longrightarrow>
      hc_best (flow_state hf) = hc_best hst
      \<or> (hc_best (flow_state hf) = Some (cur (flow_state hf))
          \<and> (case hc_best hst of None \<Rightarrow> True
              | Some b \<Rightarrow> hc_fitness alg b < hc_fitness alg (cur (flow_state hf)))))
   \<and> (hc_run alg hopts hw = Inr (r, hw', out) \<longrightarrow> sorted_wrt (<) (best_values out))"
proof (intro conjI impI)
  assume "ga_generation env opts P generation st = Inr f"
  then show "best (flow_state f) = best st
      \<or> (\<exists>nextGeneration w1. nextGeneration \<noteq> []
            \<and> breed env opts P (prevGeneration st) [0..<population_size opts div 2] [] (world st)
                  = Inr (nextGeneration, w1)
            \<and> fitness env (best st)
                  < fitness env (nextGeneration
                       ! max_element (\<lambda>s1 s2. fitness env s1 < fitness env s2) nextGeneration)
            \<and> best (flow_state f)
                  = fst (survive P (nextGeneration
                       ! max_element (\<lambda>s1 s2. fitness env s1 < fitness env s2) nextGeneration) w1))"
    by (rule ga_generation_replaces)
next
  assume "survive_copies env P \<and> j \<le> n
       \<and> ga_generations env opts P j generation st = Inr (Continue sj)
       \<and> ga_generations env opts P n generation st = Inr f'"
  then show "fitness env (best sj) \<le> fitness env (best (flow_state f'))"
    using ga_generations_sequence by blast
next
  assume "hc_iteration alg hopts HP hst = hf"
  from hc_iteration_best [OF this]
  show "hc_best (flow_state hf) = hc_best hst
      \<or> (hc_best (flow_state hf) = Some (cur (flow_state hf))
          \<and> (case hc_best hst of None \<Rightarrow> True
              | Some b \<Rightarrow> hc_fitness alg b < hc_fitness alg (cur (flow_state hf))))"
    by blast
next
  assume "hc_run alg hopts hw = Inr (r, hw', out)"
  then show "sorted_wrt (<) (best_values out)"
    by (rule hc_run_recorded)
qed

lemma toy_survive_copies: "survive_copies toy_env toy_populator"
  by (simp add: survive_copies_def toy_populator_def)

lemma toy_generations_1:
  "ga_generations toy_env toy_options toy_populator (Suc 0) 0 toy_state
     = Inr (Continue \<lparr>prevGeneration = [7, 8], best = 8, deadRounds = 0, world = [9],
                      cerr = [Generation 0 8 0]\<rparr>)"
  by (simp add: toy_generation_0)

lemma toy_generations_2:
  "ga_generations toy_env toy_options toy_populator (Suc (Suc 0)) 0 toy_state
     = Inr (Continue \<lparr>prevGeneration = [8, 7], best = 8, deadRounds = 1, world = [],
                      cerr = [Generation 0 8 0]\<rparr>)"
  by (simp add: toy_generation_0 toy_generation_1)

lemma toy_iteration:
  "hc_iteration (default_algorithm id ()) toy_climbing toy_climber
       \<lparr>cur = 5, state = (), hc_best = None, hc_world = [7, 6], hc_cerr = []\<rparr>
     = Continue \<lparr>cur = 7, state = (), hc_best = Some 7, hc_world = [6], hc_cerr = [Best 7]\<rparr>"
  by (simp add: hc_iteration_def default_algorithm_def toy_climbing_def toy_climber_def toy_next_def)

lemma toy_climb:
  "hc_run (default_algorithm id ()) toy_climbing [5, 7, 6, 2, 1, 9] = Inr (Some 9, [], [Best 7, Best 9])"
  by (simp add: hc_run_def hc_iteration_def default_algorithm_def toy_climbing_def toy_climber_def
      toy_next_def numeral_2_eq_2)

theorem best_fitness_never_decreases_witness:
  "ga_generation toy_env toy_options toy_populator 0 toy_state
     = Inr (Continue \<lparr>prevGeneration = [7, 8], best = 8, deadRounds = 0, world = [9],
                      cerr = [Generation 0 8 0]\<rparr>)
   \<and> fitness toy_env (best toy_state) < fitness toy_env 8
   \<and> ga_generations toy_env toy_options toy_populator (Suc (Suc 0)) 0 toy_state
     = Inr (Continue \<lparr>prevGeneration = [8, 7], best = 8, deadRounds = 1, world = [],
                      cerr = [Generation 0 8 0]\<rparr>)
   \<and> hc_run (default_algorithm id ()) toy_climbing [5, 7, 6, 2, 1, 9]
     = Inr (Some 9, [], [Best 7, Best 9])
   \<and> sorted_wrt (<) (best_values [Best 7, Best (9::nat)])"
  using best_fitness_never_decreases
    [of toy_env toy_options toy_populator 0 toy_state
        "Continue \<lparr>prevGeneration = [7, 8], best = 8, deadRounds = 0, world = [9],
                      cerr = [Generation 0 8 0]\<rparr>"
        "Suc 0" "Suc (Suc 0)"
        "\<lparr>prevGeneration = [7, 8], best = 8, deadRounds = 0, world = [9],
                      cerr = [Generation 0 8 0]\<rparr>"
        "Continue \<lparr>prevGeneration = [8, 7], best = 8, deadRounds = 1, world = [],
                      cerr = [Generation 0 8 0]\<rparr>"
        "default_algorithm id ()" toy_climbing toy_climber
        "\<lparr>cur = 5, state = (), hc_best = None, hc_world = [7, 6], hc_cerr = []\<rparr>"
        "Continue \<lparr>cur = 7, state = (), hc_best = Some 7, hc_world = [6], hc_cerr = [Best 7]\<rparr>"
        "[5, 7, 6, 2, 1, 9]" "Some 9" "[]" "[Best 7, Best 9]"]
    toy_survive_copies toy_generation_0 toy_generations_1 toy_generations_2 toy_iteration toy_climb
  by (simp add: toy_env_def toy_state_def)

section \<open>Dead rounds\<close>

text \<open>
  C2. In a pass of the generation loop that does not return, the dead-rounds counter
  first becomes 0 when the best fitness strictly improved in this pass and one more
  than it was otherwise. When that value has reached \<^verbatim>\<open>permissible_dead_rounds\<close>, the
  kill pass replaces every candidate of the new generation by a freshly generated
  one (the generation handed to the shuffle is \<^verbatim>\<open>population_size\<close> candidates
  generated one after the other), \<^verbatim>\<open>Killed everything\<close> is written once, and the
  counter the pass leaves is 0; otherwise the counter keeps that value. The even
  population size is what \<^verbatim>\<open>run\<close> checks, and \<^verbatim>\<open>survive\<close> returns a copy.
\<close>

theorem dead_rounds_reset_or_increment:
  assumes "survive_copies env P" and "even (population_size opts)"
    and "ga_generation env opts P generation st = Inr (Continue st')"
  shows "let dead = (if fitness env (best st) < fitness env (best st') then 0 else deadRounds st + 1)
    in deadRounds st' = (if permissible_dead_rounds opts \<le> dead then 0 else dead)
    \<and> (permissible_dead_rounds opts \<le> dead \<longrightarrow>
         (\<exists>w2 fresh m w3. init_population env P (population_size opts) w2 = (fresh, m, w3)
            \<and> length fresh = population_size opts
            \<and> shuffle env fresh w3 = (prevGeneration st', world st')))
    \<and> cerr st' = cerr st
           @ (if permissible_dead_rounds opts \<le> dead then [KilledEverything] else [])
           @ (if generation mod output_rounds opts = 0
              then [Generation generation (fitness env (best st')) (deadRounds st')] else [])"
proof -
  from ga_generation_Continue [OF assms(3)]
  obtain nextGeneration w1 increased w2 dead nextGeneration2 w3 where
    breed: "breed env opts P (prevGeneration st) [0..<population_size opts div 2] [] (world st)
        = Inr (nextGeneration, w1)"
    and upd: "update_best env P nextGeneration (best st) w1 = (best st', increased, w2)"
    and dead: "dead = (if increased then 0 else deadRounds st + 1)"
    and demise: "demise env opts P dead (kill_threshold env opts (best st')) nextGeneration w2
           = (nextGeneration2, w3)"
    and counter: "deadRounds st' = (if permissible_dead_rounds opts \<le> dead then 0 else dead)"
    and shuffled: "shuffle env nextGeneration2 w3 = (prevGeneration st', world st')"
    and out: "cerr st' = cerr st
           @ (if permissible_dead_rounds opts \<le> dead then [KilledEverything] else [])
           @ (if generation mod output_rounds opts = 0
              then [Generation generation (fitness env (best st')) (deadRounds st')] else [])"
    by blast
  have flag: "increased \<longleftrightarrow> fitness env (best st) < fitness env (best st')"
    using upd assms(1) by (rule update_best_copies(2))
  have len: "length nextGeneration = population_size opts"
    using length_breed [OF breed] assms(2) by simp
  have fresh: "\<exists>w2 fresh m w3. init_population env P (population_size opts) w2 = (fresh, m, w3)
            \<and> length fresh = population_size opts
            \<and> shuffle env fresh w3 = (prevGeneration st', world st')"
    if killed: "permissible_dead_rounds opts \<le> dead"
  proof -
    obtain fresh m v where init: "init_population env P (population_size opts) w2 = (fresh, m, v)"
      by (metis surj_pair)
    have "demise env opts P dead (kill_threshold env opts (best st')) nextGeneration w2 = (fresh, v)"
      using demise_all [OF killed len, of env P "kill_threshold env opts (best st')" w2] init by simp
    then have "nextGeneration2 = fresh" "w3 = v"
      using demise by simp_all
    moreover have "length fresh = population_size opts"
      using length_init_population [of env P "population_size opts" w2] init by simp
    ultimately show ?thesis
      using init shuffled by blast
  qed
  show ?thesis
    unfolding Let_def
    using dead flag counter fresh out by simp
qed

theorem dead_rounds_reset_or_increment_witness:
  "ga_generation toy_env (toy_options\<lparr>permissible_dead_rounds := 1\<rparr>) toy_populator 0 stalled_state
     = Inr (Continue \<lparr>prevGeneration = [4, 3], best = 7, deadRounds = 0, world = [],
                      cerr = [KilledEverything, Generation 0 7 0]\<rparr>)
   \<and> deadRounds stalled_state + 1 = permissible_dead_rounds (toy_options\<lparr>permissible_dead_rounds := 1\<rparr>)
   \<and> init_population toy_env toy_populator 2 [3, 4] = ([3, 4], 1, [])"
proof -
  have copies: "survive_copies toy_env toy_populator"
    by (simp add: survive_copies_def toy_populator_def)
  have size: "even (population_size (toy_options\<lparr>permissible_dead_rounds := 1\<rparr>))"
    by (simp add: toy_options_def)
  have run: "ga_generation toy_env (toy_options\<lparr>permissible_dead_rounds := 1\<rparr>) toy_populator 0 stalled_state
     = Inr (Continue \<lparr>prevGeneration = [4, 3], best = 7, deadRounds = 0, world = [],
                      cerr = [KilledEverything, Generation 0 7 0]\<rparr>)"
    by (simp add: ga_generation_def breed_pair_def maybe_mutate_def update_best_def max_element_def
        demise_def demise_step_def kill_threshold_def toy_env_def toy_options_def toy_populator_def
        toy_next_def stalled_state_def upt_rec)
  have rest: "deadRounds stalled_state + 1 = permissible_dead_rounds (toy_options\<lparr>permissible_dead_rounds := 1\<rparr>)
     \<and> init_population toy_env toy_populator 2 [3, 4] = ([3, 4], 1, [])"
    by (simp add: stalled_state_def toy_options_def init_population_def init_step_def toy_env_def
        toy_populator_def toy_next_def upt_rec)
  show ?thesis
    using dead_rounds_reset_or_increment [OF copies size run] run rest by simp
qed

section \<open>The kill threshold\<close>

lemma kill_pass_at_or_below_threshold:
  assumes "\<not> permissible_dead_rounds opts \<le> dead" "length nextGeneration = population_size opts"
    and "demise env opts P dead (kill_threshold env opts b) nextGeneration w = (out, w')"
  shows "kill_threshold env opts b
           = max (fitness_death_threshold opts) (fitness_death_factor opts * fitness env b)"
    and "length out = length nextGeneration"
    and "\<forall>i<length nextGeneration.
          if fitness env (nextGeneration ! i)
               \<le> max (fitness_death_threshold opts) (fitness_death_factor opts * fitness env b)
          then \<exists>v. out ! i = fst (generate P v)
          else out ! i = nextGeneration ! i"
  using demise_threshold [OF assms]
  by (simp_all add: kill_threshold_def)

lemma default_threshold_spares_positive:
  assumes "fitness_death_threshold opts = 0" "fitness_death_factor opts = 0"
    and "\<not> permissible_dead_rounds opts \<le> dead" "length nextGeneration = population_size opts"
    and "demise env opts P dead (kill_threshold env opts b) nextGeneration w = (out, w')"
    and "i < length nextGeneration" "0 < fitness env (nextGeneration ! i)"
  shows "out ! i = nextGeneration ! i"
  using kill_pass_at_or_below_threshold(3) [OF assms(3,4,5)] assms(1,2,6,7)
  by auto

text \<open>
  C3. With the defaults \<^verbatim>\<open>fitness_death_threshold = 0\<close> and \<^verbatim>\<open>fitness_death_factor = 0\<close>
  (and \<^verbatim>\<open>permissible_dead_rounds\<close> at its maximum) the kill threshold is 0, and the
  kill pass replaces a candidate of fitness 0 by a freshly generated one: the test
  of line 162 is \<^verbatim>\<open>fitness() <= kill_threshold\<close>. Here the generation \<open>[0, 7]\<close> under
  the best candidate 7 becomes \<open>[4, 7]\<close>, 4 being the next candidate generated.
\<close>

theorem default_threshold_kills_zero_fitness:
  "fitness_death_threshold toy_options = 0 \<and> fitness_death_factor toy_options = 0
   \<and> permissible_dead_rounds toy_options = - 1
   \<and> kill_threshold toy_env toy_options 7 = 0
   \<and> demise toy_env toy_options toy_populator 1 (kill_threshold toy_env toy_options 7) [0, 7] [4]
       = ([4, 7], [])
   \<and> ga_generation toy_env toy_options toy_populator 0 unfit_state
       = Inr (Continue \<lparr>prevGeneration = [7, 4], best = 7, deadRounds = 1, world = [],
                        cerr = [Generation 0 7 1]\<rparr>)"
  by (simp add: ga_generation_def breed_pair_def maybe_mutate_def update_best_def max_element_def
      demise_def demise_step_def kill_threshold_def toy_env_def toy_options_def toy_populator_def
      toy_next_def unfit_state_def upt_rec word_order.extremum_unique)

section \<open>An exhausted budget\<close>






























lemmas toy_climbing_defs =
  hc_run_def hc_iteration_def default_algorithm_def toy_climbing_def toy_climber_def toy_next_def



section \<open>A threshold met from the start\<close>

lemma init_population_generated:
  assumes "init_population env P n w = (prev, k, w')"
  shows "\<forall>c\<in>set prev. \<exists>v. c = fst (generate P v)"
  using assms
proof (induction n arbitrary: prev k w')
  case 0
  then show ?case by (simp add: init_population_0)
next
  case (Suc n)
  obtain prev0 k0 w0 where s0: "init_population env P n w = (prev0, k0, w0)"
    by (metis surj_pair)
  obtain c w1 where g: "generate P w0 = (c, w1)"
    by (metis surj_pair)
  have prev: "prev = prev0 @ [c]"
    using Suc.prems s0 g by (auto simp: init_population_Suc init_step_def Let_def)
  have "c = fst (generate P w0)"
    using g by simp
  then show ?case
    using Suc.IH [OF s0] prev by auto
qed

lemma ga_init_start:
  assumes "0 < population_size opts"
  shows "\<exists>st c v. ga_init env opts P w = Inr st
    \<and> length (prevGeneration st) = population_size opts
    \<and> best st = fst (survive P (fst (generate P v)) c)
    \<and> cerr st = []"
proof -
  obtain prev k w1 where init: "init_population env P (population_size opts) w = (prev, k, w1)"
    by (metis surj_pair)
  have len: "length prev = population_size opts"
    using length_init_population [of env P "population_size opts" w] init by simp
  have k: "k < length prev"
    using init_population_max [OF init assms] len by simp
  then obtain v where v: "prev ! k = fst (generate P v)"
    using init_population_generated [OF init] by (metis nth_mem)
  obtain b w2 where s: "survive P (prev ! k) w1 = (b, w2)"
    by (metis surj_pair)
  have "ga_init env opts P w
      = Inr \<lparr>prevGeneration = prev, best = b, deadRounds = 0, world = w2, cerr = []\<rparr>"
    using init k s by (simp add: ga_init_def)
  moreover have "b = fst (survive P (fst (generate P v)) w1)"
    using s v by simp
  ultimately show ?thesis
    using len by auto
qed

lemma breed_pair_succeeds:
  assumes "\<forall>pop v. pop \<noteq> [] \<longrightarrow> fst (selector opts pop v) < length pop"
    and "2 * i + 1 < length prev"
  shows "\<exists>r. breed_pair env opts P prev i w = Inr r"
proof -
  have "prev \<noteq> []" using assms(2) by auto
  then have "fst (selector opts prev v) < length prev" for v
    using assms(1) by simp
  then have sel: "selector opts prev v = (p, v') \<Longrightarrow> p < length prev" for v p v'
    by (metis fst_conv)
  show ?thesis
    unfolding breed_pair_def using assms(2)
    by (auto split: prod.splits dest: sel)
qed

lemma breed_succeeds:
  assumes "\<forall>pop v. pop \<noteq> [] \<longrightarrow> fst (selector opts pop v) < length pop"
    and "\<forall>i\<in>set slots. 2 * i + 1 < length prev"
  shows "\<exists>nextGeneration w'. breed env opts P prev slots acc w = Inr (nextGeneration, w')"
  using assms(2)
proof (induction slots arbitrary: acc w)
  case Nil
  then show ?case by simp
next
  case (Cons i slots)
  obtain r where "breed_pair env opts P prev i w = Inr r"
    using breed_pair_succeeds [OF assms(1)] Cons.prems by force
  then obtain a b v where pair: "breed_pair env opts P prev i w = Inr ((a, b), v)"
    by (metis surj_pair)
  show ?case
    using pair Cons.IH [of "acc @ [a, b]" v] Cons.prems by simp
qed

lemma ga_generation_solved:
  assumes "survive_copies env P"
    and "fitness_success_threshold opts \<le> fitness env (best st)"
    and "\<forall>pop v. pop \<noteq> [] \<longrightarrow> fst (selector opts pop v) < length pop"
    and "length (prevGeneration st) = population_size opts"
    and "even (population_size opts)" "0 < population_size opts"
  shows "\<exists>st'. ga_generation env opts P generation st = Inr (Returned st')
    \<and> fitness_success_threshold opts \<le> fitness env (best st')
    \<and> cerr st' = cerr st @ [SolvedAtGeneration generation]"
proof -
  have slots: "\<forall>i\<in>set [0..<population_size opts div 2]. 2 * i + 1 < length (prevGeneration st)"
    using assms(4,5) by (auto elim!: evenE)
  obtain nextGeneration w1 where breed:
    "breed env opts P (prevGeneration st) [0..<population_size opts div 2] [] (world st)
        = Inr (nextGeneration, w1)"
    using breed_succeeds [OF assms(3) slots] by blast
  have "length nextGeneration = population_size opts"
    using length_breed [OF breed] assms(5) by simp
  then have nonempty: "nextGeneration \<noteq> []"
    using assms(6) by auto
  obtain best1 increased w2 where upd:
    "update_best env P nextGeneration (best st) w1 = (best1, increased, w2)"
    by (metis surj_pair)
  obtain nextGeneration2 w3 where dem:
    "demise env opts P (if increased then 0 else deadRounds st + 1)
           (kill_threshold env opts best1) nextGeneration w2 = (nextGeneration2, w3)"
    by (metis surj_pair)
  obtain prev' w4 where shuf: "shuffle env nextGeneration2 w3 = (prev', w4)"
    by (metis surj_pair)
  have fit: "fitness_success_threshold opts \<le> fitness env best1"
    using update_best_copies(1) [OF upd assms(1)] assms(2) by simp
  show ?thesis
    unfolding ga_generation_unfold [OF breed upd dem shuf]
    using nonempty fit by simp
qed

lemma ga_run_solved:
  assumes "populator opts = Some P" "even (population_size opts)" "0 < population_size opts"
    and "survive_copies env P"
    and "\<forall>v. fitness_success_threshold opts \<le> fitness env (fst (generate P v))"
    and "\<forall>pop v. pop \<noteq> [] \<longrightarrow> fst (selector opts pop v) < length pop"
  shows "\<exists>c w'. ga_run env opts w
        = Inr (c, w', if max_generations opts = 1 then [] else [SolvedAtGeneration 0])
      \<and> fitness_success_threshold opts \<le> fitness env c"
proof -
  from ga_init_start [OF assms(3), of env P w] obtain st c v where
    init: "ga_init env opts P w = Inr st"
    and len: "length (prevGeneration st) = population_size opts"
    and b: "best st = fst (survive P (fst (generate P v)) c)"
    and out: "cerr st = []"
    by blast
  have "fitness env (best st) = fitness env (fst (generate P v))"
    using assms(4) b by (simp add: survive_copies_def)
  then have fit: "fitness_success_threshold opts \<le> fitness env (best st)"
    using assms(5) by simp
  have run: "ga_run env opts w = ga_loop env opts P 0 st"
    using assms(1,2) init by (simp add: ga_run_def even_iff_mod_2_eq_zero)
  show ?thesis
  proof (cases "max_generations opts = 1")
    case True
    then have "ga_loop env opts P 0 st = Inr (best st, world st, cerr st)"
      by (subst ga_loop.simps) simp
    then show ?thesis
      using run fit out True by simp
  next
    case False
    then have enter: "0 < max_generations opts - 1"
      by (simp add: word_greater_zero_iff)
    from ga_generation_solved [OF assms(4) fit assms(6) len assms(2,3), of 0] obtain st' where
      ret: "ga_generation env opts P 0 st = Inr (Returned st')"
      and fit': "fitness_success_threshold opts \<le> fitness env (best st')"
      and out': "cerr st' = cerr st @ [SolvedAtGeneration 0]"
      by blast
    have "ga_loop env opts P 0 st = Inr (best st', world st', cerr st')"
      using enter ret by (subst ga_loop.simps) simp
    then show ?thesis
      using run fit' out out' False by simp
  qed
qed

lemma hc_run_solved:
  fixes fit :: "'c \<Rightarrow> 'f::linorder"
  assumes "hc_populator hopts = Some HP" "0 < max_rounds hopts" "0 < max_iterations_per_round hopts"
    and "\<forall>v. hc_fitness_success_threshold hopts \<le> fit (fst (hc_generate HP v))"
  shows "\<exists>c. hc_run (default_algorithm fit s0) hopts w
        = Inr (Some c, snd (generateNeighbour HP (fst (hc_generate HP w)) (snd (hc_generate HP w))), [])
      \<and> hc_fitness_success_threshold hopts \<le> fit c"
proof -
  obtain c0 w1 where g: "hc_generate HP w = (c0, w1)"
    by (metis surj_pair)
  obtain nxt w2 where n: "generateNeighbour HP c0 w1 = (nxt, w2)"
    by (metis surj_pair)
  have c0: "hc_fitness_success_threshold hopts \<le> fit c0"
    using assms(4) g by (metis fst_conv)
  define c where "c = (if fit c0 < fit nxt then nxt else c0)"
  have c: "hc_fitness_success_threshold hopts \<le> fit c"
    using c0 by (auto simp: c_def)
  define st0 :: "('c, 'a, 'f, 'b) hc_state" where
    "st0 = \<lparr>cur = c0, state = s0, hc_best = None, hc_world = w1, hc_cerr = []\<rparr>"
  have it: "hc_iteration (default_algorithm fit s0) hopts HP st0
      = Returned (st0\<lparr>cur := c, state := s0, hc_world := w2\<rparr>)"
    using n c c0 by (auto simp: hc_iteration_def default_algorithm_def st0_def c_def)
  obtain m where m: "max_iterations_per_round hopts = Suc m"
    using assms(3) by (cases "max_iterations_per_round hopts") auto
  obtain k where k: "max_rounds hopts = Suc k"
    using assms(2) by (cases "max_rounds hopts") auto
  have "hc_rounds (default_algorithm fit s0) hopts HP (max_rounds hopts) (None, w, [])
      = Returned (st0\<lparr>cur := c, state := s0, hc_world := w2\<rparr>)"
    using g it m unfolding k by (simp add: st0_def default_algorithm_def)
  then have "hc_run (default_algorithm fit s0) hopts w = Inr (Some c, w2, [])"
    using assms(1) by (simp add: hc_run_def st0_def)
  then show ?thesis
    using c g n by simp
qed


text \<open>
  C7, as the code has it. Let every candidate \<^verbatim>\<open>generate\<close> returns have a fitness of at
  least \<^verbatim>\<open>fitness_success_threshold\<close>. The genetic engine, on an even population size
  of at least 2, with a selector that returns indices into the population and
  \<^verbatim>\<open>survive\<close> returning a copy, returns a candidate whose fitness meets the threshold:
  from the success check of the first pass of the generation loop (it reports
  generation 0) when \<^verbatim>\<open>max_generations\<close> is not 1, and as the best of the initial
  population, with no success check, when \<^verbatim>\<open>max_generations\<close> is 1. The hill-climbing
  engine with the base class's \<^verbatim>\<open>accept\<close>, on \<^verbatim>\<open>max_rounds\<close> and
  \<^verbatim>\<open>max_iterations_per_round\<close> of at least 1, returns from the first iteration of
  round 0 (after one \<^verbatim>\<open>generate\<close> and one \<^verbatim>\<open>generateNeighbour\<close>) a candidate whose
  fitness meets the threshold.
\<close>

theorem attainable_threshold_ends_first_pass:
  fixes fit :: "'d \<Rightarrow> 'f::linorder"
  shows
  "(populator opts = Some P \<and> even (population_size opts) \<and> 0 < population_size opts
     \<and> survive_copies env P
     \<and> (\<forall>v. fitness_success_threshold opts \<le> fitness env (fst (generate P v)))
     \<and> (\<forall>pop v. pop \<noteq> [] \<longrightarrow> fst (selector opts pop v) < length pop) \<longrightarrow>
      (\<exists>c w'. ga_run env opts w
          = Inr (c, w', if max_generations opts = 1 then [] else [SolvedAtGeneration 0])
        \<and> fitness_success_threshold opts \<le> fitness env c))
   \<and> (hc_populator hopts = Some HP \<and> 0 < max_rounds hopts \<and> 0 < max_iterations_per_round hopts
       \<and> (\<forall>v. hc_fitness_success_threshold hopts \<le> fit (fst (hc_generate HP v))) \<longrightarrow>
      (\<exists>c. hc_run (default_algorithm fit s0) hopts hw
          = Inr (Some c,
                 snd (generateNeighbour HP (fst (hc_generate HP hw)) (snd (hc_generate HP hw))), [])
        \<and> hc_fitness_success_threshold hopts \<le> fit c))"
proof (intro conjI impI)
  assume "populator opts = Some P \<and> even (population_size opts) \<and> 0 < population_size opts
     \<and> survive_copies env P
     \<and> (\<forall>v. fitness_success_threshold opts \<le> fitness env (fst (generate P v)))
     \<and> (\<forall>pop v. pop \<noteq> [] \<longrightarrow> fst (selector opts pop v) < length pop)"
  then show "\<exists>c w'. ga_run env opts w
          = Inr (c, w', if max_generations opts = 1 then [] else [SolvedAtGeneration 0])
        \<and> fitness_success_threshold opts \<le> fitness env c"
    using ga_run_solved [of opts P env w] by blast
next
  assume "hc_populator hopts = Some HP \<and> 0 < max_rounds hopts \<and> 0 < max_iterations_per_round hopts
       \<and> (\<forall>v. hc_fitness_success_threshold hopts \<le> fit (fst (hc_generate HP v)))"
  then show "\<exists>c. hc_run (default_algorithm fit s0) hopts hw
          = Inr (Some c,
                 snd (generateNeighbour HP (fst (hc_generate HP hw)) (snd (hc_generate HP hw))), [])
        \<and> hc_fitness_success_threshold hopts \<le> fit c"
    using hc_run_solved [of hopts HP fit s0 hw] by blast
qed

lemma toy_generate_meets_zero:
  "hc_fitness_success_threshold (toy_climbing\<lparr>hc_fitness_success_threshold := 0\<rparr>)
     \<le> id (fst (hc_generate toy_climber v))"
  "fitness_success_threshold (toy_options\<lparr>fitness_success_threshold := 0\<rparr>)
     \<le> fitness toy_env (fst (generate toy_populator v))"
  "hc_fitness_success_threshold downhill_climbing \<le> hc_fitness always_accept (fst (hc_generate downhill_climber u))"
  by (simp_all add: toy_env_def downhill_climbing_def downhill_climber_def always_accept_def
      default_algorithm_def)

text \<open>
  Against C7 as stated. Every candidate \<^verbatim>\<open>generate\<close> returns meets the threshold
  (lemma \<open>toy_generate_meets_zero\<close>), yet: the hill-climbing engine with no round, or
  with rounds of no iteration, returns the null pointer; with an \<^verbatim>\<open>accept\<close> that
  takes every neighbour it moves from the candidate 10 to 9 and 8 and returns 9,
  below the threshold 10; and the genetic engine on the (even) population size 0
  reads element 0 of an empty vector.
\<close>

theorem attainable_threshold_without_budget:
  "hc_run (default_algorithm id ())
        (toy_climbing\<lparr>max_rounds := 0, hc_fitness_success_threshold := 0\<rparr>) [5, 7]
       = Inr (None, [5, 7], [])
   \<and> hc_run (default_algorithm id ())
        (toy_climbing\<lparr>max_iterations_per_round := 0, hc_fitness_success_threshold := 0\<rparr>) [5, 7]
       = Inr (None, [], [])
   \<and> hc_run always_accept downhill_climbing () = Inr (Some 9, (), [Best 9])
   \<and> \<not> hc_fitness_success_threshold downhill_climbing \<le> hc_fitness always_accept 9
   \<and> ga_run toy_env (toy_options\<lparr>population_size := 0, fitness_success_threshold := 0\<rparr>) [5, 7]
       = Inl (OutOfRange, [5, 7])"
  by (simp add: toy_climbing_defs numeral_2_eq_2 ga_run_def ga_init_def init_population_def
      toy_options_def always_accept_def downhill_climbing_def downhill_climber_def)

theorem attainable_threshold_ends_first_pass_witness:
  "ga_run toy_env (toy_options\<lparr>fitness_success_threshold := 0\<rparr>) [5, 7, 0, 1, 1, 0, 5, 9]
     = Inr (8, [9], [SolvedAtGeneration 0])
   \<and> hc_run (default_algorithm id ()) (toy_climbing\<lparr>hc_fitness_success_threshold := 0\<rparr>) [5, 7, 6]
     = Inr (Some 7, [6], [])"
proof -
  let ?opts = "toy_options\<lparr>fitness_success_threshold := 0\<rparr>"
  let ?hopts = "toy_climbing\<lparr>hc_fitness_success_threshold := 0\<rparr>"
  have ga_hyps: "populator ?opts = Some toy_populator \<and> even (population_size ?opts)
     \<and> 0 < population_size ?opts \<and> survive_copies toy_env toy_populator
     \<and> (\<forall>v. fitness_success_threshold ?opts \<le> fitness toy_env (fst (generate toy_populator v)))
     \<and> (\<forall>pop v. pop \<noteq> [] \<longrightarrow> fst (selector ?opts pop v) < length pop)"
    by (simp add: toy_options_def toy_env_def toy_populator_def survive_copies_def split: prod.splits)
  have hc_hyps: "hc_populator ?hopts = Some toy_climber \<and> 0 < max_rounds ?hopts
       \<and> 0 < max_iterations_per_round ?hopts
       \<and> (\<forall>v. hc_fitness_success_threshold ?hopts \<le> id (fst (hc_generate toy_climber v)))"
    by (simp add: toy_climbing_def)
  have ga: "ga_run toy_env ?opts [5, 7, 0, 1, 1, 0, 5, 9] = Inr (8, [9], [SolvedAtGeneration 0])"
    by (subst ga_run_def, simp add: ga_init_def init_population_def init_step_def toy_defs upt_rec,
        subst ga_loop.simps,
        simp add: ga_generation_def breed_pair_def maybe_mutate_def update_best_def max_element_def
          demise_def demise_step_def kill_threshold_def toy_defs upt_rec)
  have hc: "hc_run (default_algorithm id ()) ?hopts [5, 7, 6] = Inr (Some 7, [6], [])"
    by (simp add: toy_climbing_defs numeral_2_eq_2)
  show ?thesis
    using attainable_threshold_ends_first_pass
      [of ?opts toy_populator toy_env "[5, 7, 0, 1, 1, 0, 5, 9]" ?hopts toy_climber id "()" "[5, 7, 6]"]
      ga_hyps hc_hyps ga hc
    by simp
qed

end
